theory Spec2Isabelle
  imports Main "HOL-Library.Word"
begin

unbundle bit_operations_syntax

section \<open>Packets and the checksum (protocol.h, protocol.cpp)\<close>

text \<open>
  \<^verbatim>\<open>uint8_t\<close>, \<^verbatim>\<open>uint16_t\<close> and \<^verbatim>\<open>uint32_t\<close> are words of that width. A
  \<^verbatim>\<open>Packet\<close> is \<^verbatim>\<open>std::array<uint8_t, 17>\<close>: a list of bytes that every
  builder keeps at length 17. \<^verbatim>\<open>ActionBytes\<close> is \<^verbatim>\<open>std::array<uint8_t, 4>\<close>: a
  4-tuple. Where the source computes a byte in a wider unsigned type and then
  masks it with \<^verbatim>\<open>& 0xFF\<close>, and only \<open>+\<close>, \<open>-\<close> and \<open>*\<close> are involved, the
  model computes in \<open>u8\<close>, whose arithmetic wraps modulo 256.
\<close>

type_synonym u8 = "8 word"
type_synonym u16 = "16 word"
type_synonym u32 = "32 word"
type_synonym packet = "u8 list"
type_synonym action_bytes = "u8 \<times> u8 \<times> u8 \<times> u8"

definition M913_PACKET_SIZE :: nat where
  "M913_PACKET_SIZE = 17"

text \<open>
  \<^verbatim>\<open>compute_checksum\<close>: a \<^verbatim>\<open>uint16_t\<close> accumulator over bytes 0..15, then
  \<^verbatim>\<open>(0x55 - s) & 0xFF\<close> in \<^verbatim>\<open>int\<close>, cast to a byte.
\<close>

definition compute_checksum :: "packet \<Rightarrow> u8" where
  "compute_checksum p =
     (let s = fold (\<lambda>b s. s + ucast b) (take (M913_PACKET_SIZE - 1) p) (0 :: u16)
      in word_of_int ((0x55 - uint s) AND 0xFF))"

text \<open>\<^verbatim>\<open>from_raw\<close> copies the 17 bytes of a template.\<close>

definition from_raw :: "u8 list \<Rightarrow> packet" where
  "from_raw src = take 17 src"

section \<open>Templates and tables (protocol.cpp)\<close>

definition default_button_mapping :: "u8 list list" where
  "default_button_mapping =
    [[0x08,0x07,0x00,0x00,0x60,0x08, 0x00,0x00,0x00,0x55, 0x05,0x00,0x00,0x50, 0x00,0x00,0x34],
     [0x08,0x07,0x00,0x00,0x68,0x08, 0x05,0x00,0x00,0x50, 0x01,0x08,0x00,0x4c, 0x00,0x00,0x2c],
     [0x08,0x07,0x00,0x00,0x70,0x08, 0x05,0x00,0x00,0x50, 0x05,0x00,0x00,0x50, 0x00,0x00,0x24],
     [0x08,0x07,0x00,0x00,0x78,0x08, 0x01,0x02,0x00,0x52, 0x01,0x01,0x00,0x53, 0x00,0x00,0x1c],
     [0x08,0x07,0x00,0x00,0x80,0x08, 0x05,0x00,0x00,0x50, 0x05,0x00,0x00,0x50, 0x00,0x00,0x14],
     [0x08,0x07,0x00,0x00,0x88,0x08, 0x01,0x04,0x00,0x50, 0x04,0x3a,0x03,0x14, 0x00,0x00,0x0c],
     [0x08,0x07,0x00,0x00,0x90,0x08, 0x05,0x00,0x00,0x50, 0x05,0x00,0x00,0x50, 0x00,0x00,0x04],
     [0x08,0x07,0x00,0x00,0x98,0x08, 0x05,0x00,0x00,0x50, 0x05,0x00,0x00,0x50, 0x00,0x00,0xfc]]"

definition kb_key_addr :: "(u8 \<times> u8) list" where
  "kb_key_addr =
    [(0x01,0x00), (0x01,0x20), (0x01,0x40), (0x01,0x60),
     (0x01,0x80), (0x01,0xa0), (0x01,0xc0), (0x01,0xe0),
     (0x02,0x00), (0x02,0x20), (0x02,0x40), (0x02,0x60),
     (0x02,0x80), (0x02,0xa0), (0x02,0xc0), (0x02,0xe0)]"

definition dpi_table :: "(u16 \<times> (u8 \<times> u8 \<times> u8)) list" where
  "dpi_table =
    [(  100, (0x00,0x00,0x55)), (  200, (0x02,0x02,0x51)), (  300, (0x03,0x03,0x4f)),
     (  400, (0x04,0x04,0x4d)), (  500, (0x05,0x05,0x4b)), (  600, (0x06,0x06,0x49)),
     (  700, (0x07,0x07,0x47)), (  800, (0x09,0x09,0x43)), (  900, (0x0a,0x0a,0x41)),
     ( 1000, (0x0b,0x0b,0x3f)), ( 1100, (0x0c,0x0c,0x3d)), ( 1200, (0x0d,0x0d,0x3b)),
     ( 1300, (0x0e,0x0e,0x39)), ( 1400, (0x10,0x10,0x35)), ( 1500, (0x11,0x11,0x33)),
     ( 1600, (0x12,0x12,0x31)), ( 1700, (0x13,0x13,0x2f)), ( 1800, (0x14,0x14,0x2d)),
     ( 1900, (0x16,0x16,0x29)), ( 2000, (0x17,0x17,0x27)), ( 2100, (0x18,0x18,0x25)),
     ( 2200, (0x19,0x19,0x23)), ( 2300, (0x1a,0x1a,0x21)), ( 2400, (0x1b,0x1b,0x1f)),
     ( 2500, (0x1d,0x1d,0x1b)), ( 2600, (0x1e,0x1e,0x19)), ( 2700, (0x1f,0x1f,0x17)),
     ( 2800, (0x20,0x20,0x15)), ( 2900, (0x21,0x21,0x13)), ( 3000, (0x23,0x23,0x0f)),
     ( 3200, (0x26,0x26,0x09)), ( 3600, (0x2a,0x2a,0x01)), ( 4000, (0x2f,0x2f,0xf7)),
     ( 4800, (0x39,0x39,0xe3)), ( 5000, (0x3b,0x3b,0xdf)), ( 5500, (0x41,0x41,0xd3)),
     ( 6000, (0x47,0x47,0xc7)), ( 6400, (0x4c,0x4c,0xbd)), ( 6600, (0x4f,0x4f,0xb7)),
     ( 7000, (0x53,0x53,0xaf)), ( 7200, (0x56,0x56,0xa9)), ( 7300, (0x57,0x57,0xa7)),
     ( 7400, (0x58,0x58,0xa5)), ( 7500, (0x59,0x59,0xa3)), ( 8000, (0x5f,0x5f,0x97)),
     ( 8500, (0x65,0x65,0x8b)), ( 9000, (0x6b,0x6b,0x7f)), ( 9600, (0x73,0x73,0x6f)),
     (10000, (0x77,0x77,0x67)), (11000, (0x83,0x83,0x4f)), (12000, (0x8f,0x8f,0x37)),
     (13000, (0x9b,0x9b,0x1f)), (14000, (0xa7,0xa7,0x07)), (15000, (0xb3,0xb3,0xef)),
     (16000, (0xbd,0xbd,0xdb))]"

definition kb_key_template :: "u8 list" where
  "kb_key_template =
    [0x08,0x07,0x00,0x01,0x60,0x08,
     0x02,0x81,0x21,0x00,0x41,0x21,0x00,0x4f,
     0x00,0x00,0x88]"

definition dpi_template :: "u8 list list" where
  "dpi_template =
    [[0x08,0x07,0x00,0x00,0x0c,0x08, 0x00,0x00,0x00,0x55, 0x02,0x02,0x00,0x51, 0x00,0x00,0x88],
     [0x08,0x07,0x00,0x00,0x14,0x08, 0x03,0x03,0x00,0x4f, 0x04,0x04,0x00,0x4d, 0x00,0x00,0x80],
     [0x08,0x07,0x00,0x00,0x1c,0x04, 0x05,0x05,0x00,0x4b, 0x00,0x00,0x00,0x00, 0x00,0x00,0xd1],
     [0x08,0x07,0x00,0x00,0x02,0x02, 0x05,0x50,0x00,0x00, 0x00,0x00,0x00,0x00, 0x00,0x00,0xed]]"

definition unknown2 :: "u8 list list" where
  "unknown2 =
    [[0x08,0x07,0x00,0x00,0x2c,0x08, 0xff,0x00,0x00,0x56, 0x00,0x00,0xff,0x56, 0x00,0x00,0x68],
     [0x08,0x07,0x00,0x00,0x34,0x08, 0x00,0xff,0x00,0x56, 0xff,0xff,0x00,0x57, 0x00,0x00,0x60],
     [0x08,0x07,0x00,0x00,0x3c,0x04, 0xff,0x55,0x7d,0x84, 0x00,0x00,0x00,0x00, 0x00,0x00,0xb1]]"

definition led_off :: "u8 list list" where
  "led_off =
    [[0x08,0x07,0x00,0x00,0x58,0x02, 0x00,0x55,0x00,0x00, 0x00,0x00,0x00,0x00, 0x00,0x00,0x97]]"

definition led_breathing :: "u8 list list" where
  "led_breathing =
    [[0x08,0x07,0x00,0x00,0x54,0x08, 0xff,0x00,0x00,0x57, 0x01,0x54,0xff,0x56, 0x00,0x00,0xeb],
     [0x08,0x07,0x00,0x00,0x5c,0x02, 0x03,0x52,0x00,0x00, 0x00,0x00,0x00,0x00, 0x00,0x00,0x93]]"

definition led_rainbow :: "u8 list list" where
  "led_rainbow =
    [[0x08,0x07,0x00,0x00,0x54,0x08, 0xff,0x00,0xff,0x57, 0x03,0x52,0x80,0xd5, 0x00,0x00,0xeb],
     [0x08,0x07,0x00,0x00,0x5c,0x02, 0x03,0x52,0x00,0x00, 0x00,0x00,0x00,0x00, 0x00,0x00,0x93]]"

definition led_static :: "u8 list list" where
  "led_static =
    [[0x08,0x07,0x00,0x00,0x54,0x08, 0xff,0x00,0x00,0x57, 0x01,0x54,0xff,0x56, 0x00,0x00,0xeb]]"

text \<open>\<^verbatim>\<open>lookup_dpi\<close>: the first table entry whose value equals the request, or \<^verbatim>\<open>nullptr\<close>.\<close>

fun lookup_in :: "(u16 \<times> (u8 \<times> u8 \<times> u8)) list \<Rightarrow> u16 \<Rightarrow> (u8 \<times> u8 \<times> u8) option" where
  "lookup_in [] dpi = None"
| "lookup_in (e # es) dpi = (if fst e = dpi then Some (snd e) else lookup_in es dpi)"

definition lookup_dpi :: "u16 \<Rightarrow> (u8 \<times> u8 \<times> u8) option" where
  "lookup_dpi dpi = lookup_in dpi_table dpi"

section \<open>Polling rate (build_polling_rate_packet)\<close>

definition polling_code :: "u16 \<Rightarrow> u8" where
  "polling_code hz =
     (if 1000 \<le> hz then 0x01
      else if 500 \<le> hz then 0x02
      else if 250 \<le> hz then 0x04
      else 0x08)"

definition build_polling_rate_packet :: "u16 \<Rightarrow> packet" where
  "build_polling_rate_packet hz =
     (let code = polling_code hz;
          p = replicate 17 0;
          p = p[0 := 0x08, 1 := 0x07];
          p = p[4 := 0x00, 5 := 0x02];
          p = p[6 := code];
          p = p[7 := 0x55 - code];
          p = p[16 := compute_checksum p]
      in p)"

section \<open>LED (build_led_packets)\<close>

datatype LedMode = Off | Steady | Respiration | Rainbow

definition color_r :: "u32 \<Rightarrow> u8" where
  "color_r color = ucast (drop_bit 16 color AND 0xff)"

definition color_g :: "u32 \<Rightarrow> u8" where
  "color_g color = ucast (drop_bit 8 color AND 0xff)"

definition color_b :: "u32 \<Rightarrow> u8" where
  "color_b color = ucast (color AND 0xff)"

definition build_led_packets :: "LedMode \<Rightarrow> u32 \<Rightarrow> u8 \<Rightarrow> u8 \<Rightarrow> packet list" where
  "build_led_packets mode color brightness speed =
     (if mode = Off then [from_raw (led_off ! 0)]
      else if mode = Respiration then
        (let r = color_r color; g = color_g color; b = color_b color;
             p1 = from_raw (led_breathing ! 0);
             p1 = p1[6 := r, 7 := g, 8 := b];
             p1 = p1[9 := 0x55 - r - g - b];
             p1 = p1[10 := 0x02];
             p1 = p1[11 := 0x55 - 0x02];
             p1 = p1[12 := brightness];
             p1 = p1[13 := 0x55 - brightness];
             p1 = p1[16 := compute_checksum p1];
             p2 = from_raw (led_breathing ! 1);
             p2 = p2[6 := speed];
             p2 = p2[7 := 0x55 - speed];
             p2 = p2[16 := compute_checksum p2]
         in [p1, p2])
      else if mode = Rainbow then [from_raw (led_rainbow ! 0), from_raw (led_rainbow ! 1)]
      else
        (let r = color_r color; g = color_g color; b = color_b color;
             buf = from_raw (led_static ! 0);
             buf = buf[6 := r, 7 := g, 8 := b];
             buf = buf[9 := 0x55 - r - g - b];
             buf = buf[10 := 0x01];
             buf = buf[11 := 0x55 - 0x01];
             buf = buf[12 := brightness];
             buf = buf[13 := 0x55 - brightness];
             buf = buf[16 := compute_checksum buf]
         in [buf]))"

section \<open>DPI (build_dpi_packets)\<close>

text \<open>
  \<^verbatim>\<open>DpiSettings\<close>: two arrays of five elements, read at the indices 0..4 only.
\<close>

record DpiSettings =
  dpi_values :: "u16 list"
  dpi_enabled :: "bool list"

text \<open>The lambda \<^verbatim>\<open>set_level\<close>, on the one packet it writes to.\<close>

definition set_level :: "packet \<Rightarrow> nat \<Rightarrow> u16 \<Rightarrow> packet" where
  "set_level p base_off val =
     (case lookup_dpi val of
        None \<Rightarrow> p
      | Some (c0, c1, c2) \<Rightarrow> p[base_off := c0, base_off + 1 := c1, base_off + 3 := c2])"

definition set_level_if :: "packet \<Rightarrow> nat \<Rightarrow> u16 \<Rightarrow> packet" where
  "set_level_if p base_off val = (if val \<noteq> 0 then set_level p base_off val else p)"

definition num_enabled :: "DpiSettings \<Rightarrow> nat" where
  "num_enabled dpi = fold (\<lambda>i n. if dpi_enabled dpi ! i then n + 1 else n) [0..<5] 0"

definition enable_bytes :: "DpiSettings \<Rightarrow> u8 \<times> u8" where
  "enable_bytes dpi =
     (let e = (0x05, 0x50);
          e = (if \<not> dpi_enabled dpi ! 4 then (0x04, 0x51) else e);
          e = (if \<not> dpi_enabled dpi ! 3 then (0x03, 0x52) else e);
          e = (if \<not> dpi_enabled dpi ! 2 then (0x02, 0x53) else e);
          e = (if \<not> dpi_enabled dpi ! 1 then (0x01, 0x54) else e)
      in e)"

definition build_dpi_packets :: "DpiSettings \<Rightarrow> packet list" where
  "build_dpi_packets dpi =
     (let b0 = from_raw (dpi_template ! 0);
          b1 = from_raw (dpi_template ! 1);
          b2 = from_raw (dpi_template ! 2);
          b3 = from_raw (dpi_template ! 3);
          b0 = set_level_if b0 6 (dpi_values dpi ! 0);
          b0 = set_level_if b0 10 (dpi_values dpi ! 1);
          b1 = set_level_if b1 6 (dpi_values dpi ! 2);
          b1 = set_level_if b1 10 (dpi_values dpi ! 3);
          b2 = set_level_if b2 6 (dpi_values dpi ! 4);
          b3 = (if num_enabled dpi = 0 then b3
                else b3[6 := fst (enable_bytes dpi), 7 := snd (enable_bytes dpi)])
      in map (\<lambda>b. b[16 := compute_checksum b]) [b0, b1, b2, b3] @ map from_raw unknown2)"

section \<open>Action names (data.cpp)\<close>

text \<open>
  The three \<^verbatim>\<open>std::map<std::string, ...>\<close> tables, as association lists read
  with \<^const>\<open>map_of\<close> (\<^verbatim>\<open>find\<close>: exact match on the whole name; no name occurs
  twice in a table).
\<close>

definition mouse_actions :: "(string \<times> action_bytes) list" where
  "mouse_actions =
    [(''left'', (0x01, 0x01, 0x00, 0x53)), (''right'', (0x01, 0x02, 0x00, 0x52)),
     (''middle'', (0x01, 0x04, 0x00, 0x50)), (''backward'', (0x01, 0x08, 0x00, 0x4c)),
     (''forward'', (0x01, 0x10, 0x00, 0x44)), (''dpi-'', (0x02, 0x03, 0x00, 0x50)),
     (''dpi+'', (0x02, 0x02, 0x00, 0x51)), (''dpi-cycle'', (0x02, 0x01, 0x00, 0x52)),
     (''dpi-loop'', (0x02, 0x01, 0x00, 0x52)), (''led_toggle'', (0x08, 0x00, 0x00, 0x4d)),
     (''rgb_toggle'', (0x08, 0x00, 0x00, 0x4d)), (''none'', (0x00, 0x00, 0x00, 0x55)),
     (''disable'', (0x00, 0x00, 0x00, 0x55)), (''fire'', (0x04, 0x3a, 0x03, 0x14)),
     (''three_click'', (0x04, 0x32, 0x03, 0x1c)), (''polling_switch'', (0x07, 0x00, 0x00, 0x4e)),
     (''media_play'', (0x92, 0x00, 0xcd, 0x00)), (''media_player'', (0x92, 0x01, 0x83, 0x01)),
     (''media_next'', (0x92, 0x00, 0xb5, 0x00)), (''media_prev'', (0x92, 0x00, 0xb6, 0x00)),
     (''media_stop'', (0x92, 0x00, 0xb7, 0x00)), (''media_vol_up'', (0x92, 0x00, 0xe9, 0x00)),
     (''media_vol_down'', (0x92, 0x00, 0xea, 0x00)), (''media_mute'', (0x92, 0x00, 0xe2, 0x00)),
     (''media_email'', (0x92, 0x01, 0x8a, 0x01)), (''media_calc'', (0x92, 0x01, 0x92, 0x01)),
     (''media_computer'', (0x92, 0x01, 0x94, 0x01)), (''media_home'', (0x92, 0x02, 0x23, 0x02)),
     (''media_search'', (0x92, 0x02, 0x21, 0x02)), (''www_forward'', (0x92, 0x02, 0x25, 0x02)),
     (''www_back'', (0x92, 0x02, 0x24, 0x02)), (''www_stop'', (0x92, 0x02, 0x26, 0x02)),
     (''www_refresh'', (0x92, 0x02, 0x27, 0x02)), (''www_favorites'', (0x92, 0x02, 0x2a, 0x02)),
     (''favorites'', (0x92, 0x02, 0x2a, 0x02))]"

definition modifier_bits :: "(string \<times> u8) list" where
  "modifier_bits =
    [(''ctrl_l'', 0x01), (''shift_l'', 0x02), (''alt_l'', 0x04), (''super_l'', 0x08), (''meta_l'', 0x08),
     (''ctrl_r'', 0x10), (''shift_r'', 0x20), (''alt_r'', 0x40), (''super_r'', 0x80), (''meta_r'', 0x80),
     (''ctrl'', 0x01), (''shift'', 0x02), (''alt'', 0x04), (''super'', 0x08), (''meta'', 0x08)]"

definition key_codes :: "(string \<times> u8) list" where
  "key_codes =
    [(''a'', 0x04), (''b'', 0x05), (''c'', 0x06), (''d'', 0x07),
     (''e'', 0x08), (''f'', 0x09), (''g'', 0x0a), (''h'', 0x0b),
     (''i'', 0x0c), (''j'', 0x0d), (''k'', 0x0e), (''l'', 0x0f),
     (''m'', 0x10), (''n'', 0x11), (''o'', 0x12), (''p'', 0x13),
     (''q'', 0x14), (''r'', 0x15), (''s'', 0x16), (''t'', 0x17),
     (''u'', 0x18), (''v'', 0x19), (''w'', 0x1a), (''x'', 0x1b),
     (''y'', 0x1c), (''z'', 0x1d), (''1'', 0x1e), (''2'', 0x1f),
     (''3'', 0x20), (''4'', 0x21), (''5'', 0x22), (''6'', 0x23),
     (''7'', 0x24), (''8'', 0x25), (''9'', 0x26), (''0'', 0x27),
     (''enter'', 0x28), (''return'', 0x28), (''escape'', 0x29), (''esc'', 0x29),
     (''backspace'', 0x2a), (''tab'', 0x2b), (''space'', 0x2c), (''minus'', 0x2d),
     (''-'', 0x2d), (''equal'', 0x2e), (''='', 0x2e), (''lbracket'', 0x2f),
     (''['', 0x2f), (''rbracket'', 0x30), ('']'', 0x30), (''backslash'', 0x31),
     ([CHR 0x5C], 0x31), (''semicolon'', 0x33), ('';'', 0x33), (''quote'', 0x34),
     ([CHR 0x27], 0x34), (''grave'', 0x35), ([CHR 0x60], 0x35), (''comma'', 0x36),
     ('','', 0x36), (''dot'', 0x37), (''.'', 0x37), (''slash'', 0x38),
     (''/'', 0x38), (''capslock'', 0x39), (''f1'', 0x3a), (''f2'', 0x3b),
     (''f3'', 0x3c), (''f4'', 0x3d), (''f5'', 0x3e), (''f6'', 0x3f),
     (''f7'', 0x40), (''f8'', 0x41), (''f9'', 0x42), (''f10'', 0x43),
     (''f11'', 0x44), (''f12'', 0x45), (''f13'', 0x68), (''f14'', 0x69),
     (''f15'', 0x6a), (''f16'', 0x6b), (''f17'', 0x6c), (''f18'', 0x6d),
     (''f19'', 0x6e), (''f20'', 0x6f), (''f21'', 0x70), (''f22'', 0x71),
     (''f23'', 0x72), (''f24'', 0x73), (''printscreen'', 0x46), (''scrolllock'', 0x47),
     (''pause'', 0x48), (''insert'', 0x49), (''home'', 0x4a), (''pageup'', 0x4b),
     (''delete'', 0x4c), (''end'', 0x4d), (''pagedown'', 0x4e), (''right'', 0x4f),
     (''left'', 0x50), (''down'', 0x51), (''up'', 0x52), (''num0'', 0x62),
     (''num1'', 0x59), (''num2'', 0x5a), (''num3'', 0x5b), (''num4'', 0x5c),
     (''num5'', 0x5d), (''num6'', 0x5e), (''num7'', 0x5f), (''num8'', 0x60),
     (''num9'', 0x61), (''numenter'', 0x58), (''numdot'', 0x63), (''numplus'', 0x57),
     (''numminus'', 0x56), (''nummul'', 0x55), (''numdiv'', 0x54), (''numlock'', 0x53)]"

text \<open>
  \<^verbatim>\<open>to_lower\<close>: \<^verbatim>\<open>std::tolower\<close> on each byte, in the C locale: the 26 upper-case
  ASCII letters are mapped, every other byte is kept.
\<close>

definition tolower :: "char \<Rightarrow> char" where
  "tolower c =
     (case map_of (zip ''ABCDEFGHIJKLMNOPQRSTUVWXYZ'' ''abcdefghijklmnopqrstuvwxyz'') c of
        Some l \<Rightarrow> l
      | None \<Rightarrow> c)"

definition to_lower :: "string \<Rightarrow> string" where
  "to_lower s = map tolower s"

text \<open>
  \<^verbatim>\<open>split\<close>: \<^verbatim>\<open>std::getline\<close> up to each delimiter; empty parts are dropped, and
  so is the empty remainder after a final delimiter. \<open>part\<close> is the part read so far.
\<close>

fun split_from :: "string \<Rightarrow> char \<Rightarrow> string \<Rightarrow> string list" where
  "split_from [] delim part = (if part = [] then [] else [part])"
| "split_from (c # cs) delim part =
     (if c = delim
      then (if part = [] then split_from cs delim [] else part # split_from cs delim [])
      else split_from cs delim (part @ [c]))"

definition split :: "string \<Rightarrow> char \<Rightarrow> string list" where
  "split s delim = split_from s delim []"

text \<open>
  \<^verbatim>\<open>std::stoi\<close> (base 10): leading white space is skipped, one optional sign is
  read, then the longest run of decimal digits; what follows is ignored. It throws
  when there is no digit (\<^verbatim>\<open>invalid_argument\<close>) or the value does not fit an
  \<^verbatim>\<open>int\<close> (\<^verbatim>\<open>out_of_range\<close>): \<open>None\<close>.
\<close>

definition isspace :: "char \<Rightarrow> bool" where
  "isspace c = (c \<in> set [CHR 0x20, CHR 0x09, CHR 0x0A, CHR 0x0B, CHR 0x0C, CHR 0x0D])"

definition digit_val :: "char \<Rightarrow> int option" where
  "digit_val c = map_of (zip ''0123456789'' [0, 1, 2, 3, 4, 5, 6, 7, 8, 9]) c"

definition isdigit :: "char \<Rightarrow> bool" where
  "isdigit c = (digit_val c \<noteq> None)"

definition digits_value :: "string \<Rightarrow> int" where
  "digits_value ds = fold (\<lambda>c n. 10 * n + (case digit_val c of Some d \<Rightarrow> d | None \<Rightarrow> 0)) ds 0"

definition stoi :: "string \<Rightarrow> int option" where
  "stoi s =
     (let s1 = dropWhile isspace s;
          neg = (take 1 s1 = ''-'');
          s2 = (if take 1 s1 = ''-'' \<or> take 1 s1 = ''+'' then drop 1 s1 else s1);
          ds = takeWhile isdigit s2;
          v = (if neg then - digits_value ds else digits_value ds)
      in if ds = [] then None
         else if v < - (2 ^ 31) \<or> 2 ^ 31 - 1 < v then None
         else Some v)"

text \<open>
  The byte \<^verbatim>\<open>(0x55u - (0x04u + speed + times)) & 0xFF\<close> of a \<^verbatim>\<open>fire:\<close> action,
  computed in \<^verbatim>\<open>unsigned\<close> (32 bits) and cast to a byte (\<open>ntimes\<close> is the source's \<^verbatim>\<open>times\<close>).
\<close>

definition fire_checksum :: "int \<Rightarrow> int \<Rightarrow> u8" where
  "fire_checksum speed ntimes =
     ucast (((0x55 :: u32) - (0x04 + word_of_int speed + word_of_int ntimes)) AND 0xFF)"

text \<open>
  The loop over the parts, shared by \<^verbatim>\<open>parse_action\<close> and \<^verbatim>\<open>parse_multikey\<close>:
  a modifier name sets its bit, a key name appends its code, any other part fails.
\<close>

fun parse_parts :: "string list \<Rightarrow> u8 \<Rightarrow> u8 list \<Rightarrow> (u8 \<times> u8 list) option" where
  "parse_parts [] mods keys = Some (mods, keys)"
| "parse_parts (part # ps) mods keys =
     (case map_of modifier_bits part of
        Some m \<Rightarrow> parse_parts ps (mods OR m) keys
      | None \<Rightarrow>
          (case map_of key_codes part of
             None \<Rightarrow> None
           | Some k \<Rightarrow> parse_parts ps mods (keys @ [k])))"

text \<open>
  \<^verbatim>\<open>parse_action\<close> returns \<^verbatim>\<open>false\<close> (\<open>None\<close>) or \<^verbatim>\<open>true\<close> with the action bytes
  written to \<^verbatim>\<open>out\<close>.
\<close>

definition parse_action :: "string \<Rightarrow> action_bytes option" where
  "parse_action action_raw =
     (let action = to_lower action_raw in
      if take 5 action = ''fire:'' then
        (let parts = split action CHR '':'' in
         if length parts = 3 then
           (case stoi (parts ! 1) of
              None \<Rightarrow> None
            | Some speed \<Rightarrow>
                (case stoi (parts ! 2) of
                   None \<Rightarrow> None
                 | Some ntimes \<Rightarrow>
                     if 3 \<le> speed \<and> speed \<le> 255 \<and> 0 \<le> ntimes \<and> ntimes \<le> 3
                     then Some (0x04, word_of_int speed, word_of_int ntimes,
                                fire_checksum speed ntimes)
                     else None))
         else None)
      else
        (case map_of mouse_actions action of
           Some ab \<Rightarrow> Some ab
         | None \<Rightarrow>
             (let parts = split action CHR ''+'' in
              if parts = [] then None
              else
                (case parse_parts parts 0x00 [] of
                   None \<Rightarrow> None
                 | Some (mods, keys) \<Rightarrow>
                     if keys = [] then Some (0x90, mods, 0x00, 0x00)
                     else if length keys = 1 then Some (0x90, mods, keys ! 0, 0x00)
                     else if 255 < length keys then None
                     else Some (0x90, mods, keys ! 0, of_nat (length keys))))))"

definition parse_multikey :: "string \<Rightarrow> (u8 \<times> u8 list) option" where
  "parse_multikey action =
     (let lower_action = to_lower action;
          parts = split lower_action CHR ''+''
      in if parts = [] then None else parse_parts parts 0x00 [])"

section \<open>Button mapping (build_button_mapping)\<close>

text \<open>
  \<^verbatim>\<open>g_multikey_actions\<close>, the global registry of action strings by button index, is
  an explicit argument, and the registry the call leaves behind is part of the
  result.
\<close>

type_synonym registry = "u8 \<rightharpoonup> string"

definition register_multikey_action :: "u8 \<Rightarrow> string \<Rightarrow> registry \<Rightarrow> registry" where
  "register_multikey_action button_idx action_str g = g(button_idx \<mapsto> action_str)"

definition clear_multikey_actions :: "registry \<Rightarrow> registry" where
  "clear_multikey_actions g = Map.empty"

text \<open>
  A write to a packet at an index that is computed at run time. The array has 17
  bytes and \<^verbatim>\<open>operator[]\<close> does not check: a write at index 17 or more is
  undefined behaviour, which the model reports as the error \<open>OutOfBounds\<close>. Every
  other write of the builders is at a constant index below 17, or at 7 + i with
  i < 9, and is a plain list update.
\<close>

datatype error = OutOfBounds

definition write_byte :: "packet \<Rightarrow> nat \<Rightarrow> u8 \<Rightarrow> error + packet" where
  "write_byte p i v = (if i < M913_PACKET_SIZE then Inr (p[i := v]) else Inl OutOfBounds)"

definition kb_key_action :: action_bytes where
  "kb_key_action = (0x05, 0x00, 0x00, 0x50)"

definition mod_bits :: "u8 list" where
  "mod_bits = [0x01,0x02,0x04,0x08,0x10,0x20,0x40,0x80]"

text \<open>The multimedia sub-packet (first byte 0x92).\<close>

definition multimedia_packet :: "u8 \<Rightarrow> u8 \<Rightarrow> action_bytes \<Rightarrow> packet" where
  "multimedia_packet addr_hi addr_lo ab =
     (case ab of (a0, extra, code, extra2) \<Rightarrow>
        (let sub = replicate 17 0;
             sub = sub[0 := 0x08, 1 := 0x07, 2 := 0x00, 3 := addr_hi, 4 := addr_lo, 5 := 0x08];
             sub = sub[6 := 0x02, 7 := 0x82, 8 := code, 9 := extra, 10 := 0x42,
                       11 := code, 12 := extra2];
             isum = 0x02 + 0x82 + code + extra + 0x42 + code + extra2;
             sub = sub[13 := 0x55 - isum];
             sub = sub[16 := compute_checksum sub]
         in sub))"

text \<open>
  The keys and modifiers of a keyboard binding: for a key count above 1 the string
  registered for the button is parsed again, and the first scancode alone is the
  fallback.
\<close>

definition collect_keys :: "registry \<Rightarrow> u8 \<Rightarrow> u8 \<Rightarrow> u8 \<Rightarrow> u8 \<Rightarrow> u8 \<times> u8 list" where
  "collect_keys g btn_idx mods sc key_count =
     (if 1 < key_count then
        (let (mods', keys) =
               (case g btn_idx of
                  None \<Rightarrow> (mods, [])
                | Some action_str \<Rightarrow>
                    (case parse_multikey action_str of
                       None \<Rightarrow> (mods, [])
                     | Some (parsed_mods, parsed_keys) \<Rightarrow>
                         if 2 \<le> length parsed_keys then (parsed_mods, parsed_keys)
                         else (mods, [])))
         in (mods', if keys = [] then [sc] else keys))
      else (mods, if sc \<noteq> 0x00 then [sc] else []))"

text \<open>The plain single key: one sub-packet from \<^verbatim>\<open>kb_key_template\<close>.\<close>

definition single_key_packet :: "u8 \<Rightarrow> u8 \<Rightarrow> u8 \<Rightarrow> packet" where
  "single_key_packet addr_hi addr_lo key =
     (let sub = take 17 kb_key_template;
          sub = sub[3 := addr_hi];
          sub = sub[4 := addr_lo];
          sub = sub[8 := key];
          sub = sub[11 := key];
          sub = sub[13 := 0x91 - 2 * key];
          sub = sub[16 := compute_checksum sub]
      in sub)"

text \<open>The four loops that fill \<^verbatim>\<open>evts\<close>, each appending to the list built so far.\<close>

fun push_mod_events :: "u8 \<Rightarrow> u8 \<Rightarrow> u8 list \<Rightarrow> u8 list \<Rightarrow> u8 list" where
  "push_mod_events ty mods [] evts = evts"
| "push_mod_events ty mods (b # bs) evts =
     push_mod_events ty mods bs (if mods AND b \<noteq> 0 then evts @ [ty, b, 0x00] else evts)"

fun push_key_down_events :: "u8 list \<Rightarrow> u8 list \<Rightarrow> u8 list" where
  "push_key_down_events [] evts = evts"
| "push_key_down_events (k # ks) evts = push_key_down_events ks (evts @ [0x81, k, 0x00])"

text \<open>The last loop runs \<open>i\<close> from \<open>keys.size() - 1\<close> down to 0; the argument counts the keys left.\<close>

fun push_key_up_events :: "u8 list \<Rightarrow> nat \<Rightarrow> u8 list \<Rightarrow> u8 list" where
  "push_key_up_events keys 0 evts = evts"
| "push_key_up_events keys (Suc i) evts =
     push_key_up_events keys i (evts @ [0x41, keys ! i, 0x00])"

definition build_events :: "u8 \<Rightarrow> u8 list \<Rightarrow> u8 list" where
  "build_events mods keys =
     (let evts = [];
          evts = push_mod_events 0x80 mods mod_bits evts;
          evts = push_key_down_events keys evts;
          evts = push_mod_events 0x40 mods mod_bits evts;
          evts = push_key_up_events keys (length keys) evts
      in evts)"

text \<open>
  \<^verbatim>\<open>inner\<close>: a \<^verbatim>\<open>uint16_t\<close> accumulator that starts at the count and adds every
  event byte, then \<^verbatim>\<open>(0x55u - uint8_t(isum & 0xFF)) & 0xFF\<close>.
\<close>

definition inner_checksum :: "u8 \<Rightarrow> u8 list \<Rightarrow> u8" where
  "inner_checksum count evts =
     (let isum = fold (\<lambda>b s. s + ucast b) evts (ucast count :: u16)
      in 0x55 - ucast (isum AND 0xFF))"

text \<open>
  The two sub-packets of a combination. The loop that fills the second packet
  writes at 6 + i for every i below \<open>remaining\<close>, and the inner checksum at
  6 + \<open>remaining\<close>.
\<close>

definition combo_packets :: "u8 \<Rightarrow> u8 \<Rightarrow> u8 \<Rightarrow> u8 list \<Rightarrow> error + packet list" where
  "combo_packets addr_hi addr_lo mods keys =
     (let evts = build_events mods keys;
          count = (of_nat (length evts div 3) :: u8);
          inner = inner_checksum count evts;
          p1 = replicate 17 0;
          p1 = p1[0 := 0x08, 1 := 0x07, 2 := 0x00];
          p1 = p1[3 := addr_hi, 4 := addr_lo, 5 := 0x0a];
          p1 = p1[6 := count];
          p1 = fold (\<lambda>i p. p[7 + i := evts ! i]) [0..<min 9 (length evts)] p1;
          p1 = p1[16 := compute_checksum p1];
          p1_evts = min 9 (length evts);
          remaining = length evts - p1_evts;
          p2 = replicate 17 0;
          p2 = p2[0 := 0x08, 1 := 0x07, 2 := 0x00];
          p2 = p2[3 := addr_hi, 4 := addr_lo + 0x0a];
          p2 = p2[5 := of_nat (remaining + 1)]
      in case fold (\<lambda>i r. case r of Inl e \<Rightarrow> Inl e
                              | Inr p \<Rightarrow> write_byte p (6 + i) (evts ! (p1_evts + i)))
                   [0..<remaining] (Inr p2) of
           Inl e \<Rightarrow> Inl e
         | Inr p2 \<Rightarrow>
             (case write_byte p2 (6 + remaining) inner of
                Inl e \<Rightarrow> Inl e
              | Inr p2 \<Rightarrow> Inr [p1, p2[16 := compute_checksum p2]]))"

text \<open>
  The sub-packets of one keyboard or multimedia binding (first byte 0x90 or 0x92).
\<close>

definition kb_sub_packets :: "registry \<Rightarrow> nat \<Rightarrow> action_bytes \<Rightarrow> error + packet list" where
  "kb_sub_packets g btn_idx ab =
     (case ab of (a0, a1, a2, a3) \<Rightarrow>
        (let addr_hi = fst (kb_key_addr ! btn_idx);
             addr_lo = snd (kb_key_addr ! btn_idx)
         in if a0 = 0x92 then Inr [multimedia_packet addr_hi addr_lo ab]
            else
              (let (mods, keys) = collect_keys g (of_nat btn_idx) a1 a2 a3
               in if mods = 0x00 \<and> length keys = 1
                  then Inr [single_key_packet addr_hi addr_lo (keys ! 0)]
                  else combo_packets addr_hi addr_lo mods keys)))"

text \<open>
  The four action bytes of button \<open>b\<close> sit in packet \<open>b / 2\<close>, at bytes 6..9 when
  \<open>b\<close> is even and 10..13 when it is odd.
\<close>

definition put_slot :: "packet list \<Rightarrow> nat \<Rightarrow> action_bytes \<Rightarrow> packet list" where
  "put_slot buf btn_idx ab =
     (case ab of (a0, a1, a2, a3) \<Rightarrow>
        (let pkt = btn_idx div 2;
             off = (if btn_idx mod 2 = 0 then 6 else 10)
         in buf[pkt := (buf ! pkt)[off := a0, off + 1 := a1, off + 2 := a2, off + 3 := a3]]))"

text \<open>
  One iteration of the loop over \<^verbatim>\<open>changes\<close>, for a button index below 16. The
  state is the eight mapping packets and the sub-packets collected so far.
\<close>

definition button_step ::
  "registry \<Rightarrow> nat \<Rightarrow> action_bytes \<Rightarrow> packet list \<times> packet list
     \<Rightarrow> error + (packet list \<times> packet list)" where
  "button_step g btn_idx ab st =
     (case st of (buf, result) \<Rightarrow>
        if fst ab = 0x90 \<or> fst ab = 0x92 then
          (case kb_sub_packets g btn_idx ab of
             Inl e \<Rightarrow> Inl e
           | Inr subs \<Rightarrow> Inr (put_slot buf btn_idx kb_key_action, result @ subs))
        else Inr (put_slot buf btn_idx ab, result))"

text \<open>
  \<^verbatim>\<open>changes\<close> is a \<^verbatim>\<open>std::map<uint8_t, ActionBytes>\<close>: the loop visits its entries
  in ascending order of the button index and skips every index of 16 or more, so
  it visits the indices 0..15 that have an entry, in ascending order.
\<close>

fun button_loop ::
  "(u8 \<rightharpoonup> action_bytes) \<Rightarrow> registry \<Rightarrow> nat list \<Rightarrow> packet list \<times> packet list
     \<Rightarrow> error + (packet list \<times> packet list)" where
  "button_loop changes g [] st = Inr st"
| "button_loop changes g (b # bs) st =
     (case changes (of_nat b) of
        None \<Rightarrow> button_loop changes g bs st
      | Some ab \<Rightarrow>
          (case button_step g b ab st of
             Inl e \<Rightarrow> Inl e
           | Inr st' \<Rightarrow> button_loop changes g bs st'))"

text \<open>
  The result is the packet sequence (sub-packets first, then the eight mapping
  packets with their checksums recomputed) and the registry after the call.
\<close>

definition build_button_mapping ::
  "(u8 \<rightharpoonup> action_bytes) \<Rightarrow> registry \<Rightarrow> error + (packet list \<times> registry)" where
  "build_button_mapping changes g =
     (case button_loop changes g [0..<16] (map from_raw default_button_mapping, []) of
        Inl e \<Rightarrow> Inl e
      | Inr (buf, result) \<Rightarrow>
          Inr (result @ map (\<lambda>p. p[16 := compute_checksum p]) buf,
               clear_multikey_actions g))"

section \<open>Properties of the packets\<close>

text \<open>
  A packet satisfies the checksum invariant when it has 17 bytes, the sum of all
  of them is 0x55 modulo 256, and byte 16 is what \<^const>\<open>compute_checksum\<close>
  returns for it.
\<close>

definition packet_ok :: "packet \<Rightarrow> bool" where
  "packet_ok p =
     (length p = 17 \<and> sum_list (map unat p) mod 256 = 0x55 \<and> p ! 16 = compute_checksum p)"

text \<open>
  The invariant of the loop over \<^verbatim>\<open>changes\<close>: the mapping packets keep their 17
  bytes, and every sub-packet collected so far satisfies the checksum invariant.
\<close>

definition loop_inv :: "packet list \<times> packet list \<Rightarrow> bool" where
  "loop_inv st = ((\<forall>p\<in>set (fst st). length p = 17) \<and> (\<forall>p\<in>set (snd st). packet_ok p))"

text \<open>
  When a binding's sub-packets stay inside their packets: a keyboard binding
  (first byte 0x90) fits when its set modifier bits and its keys, as
  \<^const>\<open>collect_keys\<close> gives them, number three or fewer; every other binding fits.
  A call fits when every binding that the loop visits does.
\<close>

definition binding_fits :: "registry \<Rightarrow> nat \<Rightarrow> action_bytes \<Rightarrow> bool" where
  "binding_fits g btn_idx ab =
     (case ab of (a0, a1, a2, a3) \<Rightarrow>
        if a0 = 0x90
        then (case collect_keys g (of_nat btn_idx) a1 a2 a3 of
                (mods, keys) \<Rightarrow> length (filter (bit mods) [0..<8]) + length keys \<le> 3)
        else True)"

definition all_fit :: "(u8 \<rightharpoonup> action_bytes) \<Rightarrow> registry \<Rightarrow> bool" where
  "all_fit changes g =
     list_all (\<lambda>b. case changes (of_nat b) of None \<Rightarrow> True | Some ab \<Rightarrow> binding_fits g b ab)
       [0..<16]"

section \<open>Properties of the DPI packets\<close>

text \<open>
  Where the source puts the three code bytes of DPI level \<open>s + 1\<close>: the packet
  and the offset that \<^verbatim>\<open>build_dpi_packets\<close> passes to \<^verbatim>\<open>set_level\<close>.
\<close>

definition dpi_slot :: "nat \<Rightarrow> nat \<times> nat" where
  "dpi_slot s = [(0, 6), (0, 10), (1, 6), (1, 10), (2, 6)] ! s"

text \<open>Bytes 6 and 7 of the fourth packet of a sequence: the enable pair.\<close>

definition enable_pair_of :: "packet list \<Rightarrow> u8 \<times> u8" where
  "enable_pair_of pkts = (pkts ! 3 ! 6, pkts ! 3 ! 7)"

text \<open>
  The pair that the source assigns when it finds level \<open>l\<close> (2 to 5) disabled, and
  the levels among 2..5 that a setting disables, in ascending order.
\<close>

definition level_pair :: "nat \<Rightarrow> u8 \<times> u8" where
  "level_pair l =
     (if l = 5 then (0x04, 0x51)
      else if l = 4 then (0x03, 0x52)
      else if l = 3 then (0x02, 0x53)
      else (0x01, 0x54))"

definition disabled_levels :: "DpiSettings \<Rightarrow> nat list" where
  "disabled_levels dpi = filter (\<lambda>l. \<not> dpi_enabled dpi ! (l - 1)) [2, 3, 4, 5]"

text \<open>
  Two readings of "the pair is derived from a disabled level": the pair of the
  highest-numbered disabled level, as claim C4 words it, and the pair of the
  lowest-numbered one. Both are 05 50 when none of the levels 2..5 is disabled.
\<close>

definition highest_disabled_pair :: "DpiSettings \<Rightarrow> u8 \<times> u8" where
  "highest_disabled_pair dpi =
     (if disabled_levels dpi = [] then (0x05, 0x50) else level_pair (last (disabled_levels dpi)))"

definition lowest_disabled_pair :: "DpiSettings \<Rightarrow> u8 \<times> u8" where
  "lowest_disabled_pair dpi =
     (if disabled_levels dpi = [] then (0x05, 0x50) else level_pair (hd (disabled_levels dpi)))"

text \<open>
  What a slot holds after the build: the three code bytes on a table hit, with
  the gap byte of the template between them; the four template bytes otherwise.
\<close>

definition slot_result :: "DpiSettings \<Rightarrow> nat \<Rightarrow> bool" where
  "slot_result dpi s =
     (let pkt = fst (dpi_slot s); off = snd (dpi_slot s);
          p = build_dpi_packets dpi ! pkt; t = dpi_template ! pkt
      in case lookup_dpi (dpi_values dpi ! s) of
           None \<Rightarrow> p ! off = t ! off \<and> p ! (off + 1) = t ! (off + 1) \<and>
                   p ! (off + 2) = t ! (off + 2) \<and> p ! (off + 3) = t ! (off + 3)
         | Some (c0, c1, c2) \<Rightarrow> p ! off = c0 \<and> p ! (off + 1) = c1 \<and>
                   p ! (off + 2) = t ! (off + 2) \<and> p ! (off + 3) = c2)"

section \<open>Properties of the action names\<close>

text \<open>
  The three forms that \<^const>\<open>parse_action\<close> tells apart on the lower-cased string:
  a string that starts with \<^verbatim>\<open>fire:\<close>, a name of the table of fixed actions, and
  everything else, which is read as a combination.
\<close>

definition is_fire :: "string \<Rightarrow> bool" where
  "is_fire s = (take 5 (to_lower s) = ''fire:'')"

definition is_literal :: "string \<Rightarrow> bool" where
  "is_literal s = (to_lower s \<in> fst ` set mouse_actions)"

text \<open>
  The tokens of a combination: the non-empty parts between \<^verbatim>\<open>+\<close> signs of the
  lower-cased string. A token is recognized when it is a modifier name or a key
  name; the tokens that are no modifier names are the ones read as keys.
\<close>

definition lower_tokens :: "string \<Rightarrow> string list" where
  "lower_tokens s = split (to_lower s) CHR ''+''"

definition is_modifier :: "string \<Rightarrow> bool" where
  "is_modifier t = (t \<in> fst ` set modifier_bits)"

definition recognized :: "string \<Rightarrow> bool" where
  "recognized t = (t \<in> fst ` set modifier_bits \<union> fst ` set key_codes)"

definition key_tokens :: "string \<Rightarrow> string list" where
  "key_tokens s = filter (\<lambda>t. \<not> is_modifier t) (lower_tokens s)"

section \<open>Checksum lemmas\<close>

lemma wi_and_ff: "(word_of_int (k AND 255) :: u8) = word_of_int k"
proof -
  have "k AND 255 = take_bit 8 k" by (simp add: take_bit_eq_mask mask_eq_exp_minus_1)
  then show ?thesis by (simp add: wi_bintr)
qed

lemma ucast_add_16_8: "(ucast (a + b :: u16) :: u8) = ucast a + ucast b"
proof -
  have "(ucast (a + b) :: u8) = word_of_int (take_bit 16 (uint a + uint b))"
    by (simp only: ucast_eq uint_word_arith_bintrs) simp
  also have "\<dots> = word_of_int (uint a + uint b)"
    by (rule wi_bintr) simp
  also have "\<dots> = word_of_int (uint a) + word_of_int (uint b)"
    by (simp only: word_of_int_hom_syms)
  finally show ?thesis by (simp only: ucast_eq)
qed

lemma ucast_ucast_8_16_8: "(ucast (ucast (a::u8) :: u16) :: u8) = a"
  by (simp add: ucast_down_ucast_id is_down)

lemma fold_ucast_sum:
  "(ucast (fold (\<lambda>b s. s + ucast b) xs (s0 :: u16)) :: u8) = ucast s0 + sum_list xs"
  by (induction xs arbitrary: s0) (simp_all add: ucast_add_16_8 ucast_ucast_8_16_8 add.assoc)

lemma compute_checksum_eq: "compute_checksum p = 0x55 - sum_list (take 16 p)"
proof -
  let ?s = "fold (\<lambda>b s. s + ucast b) (take 16 p) (0 :: u16)"
  have "compute_checksum p = word_of_int (0x55 - uint ?s)"
    unfolding compute_checksum_def M913_PACKET_SIZE_def Let_def
    using wi_and_ff [of "0x55 - uint ?s"] by simp
  also have "\<dots> = 0x55 - word_of_int (uint ?s)"
    by (simp only: word_of_int_hom_syms) simp
  also have "\<dots> = 0x55 - (ucast ?s :: u8)"
    by (simp only: ucast_eq)
  finally show ?thesis by (simp add: fold_ucast_sum)
qed

lemma unat_sum_list_u8: "unat (sum_list xs :: u8) = sum_list (map unat xs) mod 256"
  by (induction xs) (simp_all add: unat_word_ariths mod_add_right_eq)

lemma uint_sum_list_u8: "uint (sum_list xs :: u8) = sum_list (map uint xs) mod 256"
  by (induction xs) (simp_all add: uint_word_ariths mod_add_right_eq)

lemma uint_compute_checksum:
  "uint (compute_checksum p) = (0x55 - sum_list (map uint (take 16 p))) mod 256"
  by (simp add: compute_checksum_eq uint_word_ariths uint_sum_list_u8 mod_diff_right_eq)

lemma compute_checksum_update16 [simp]:
  "compute_checksum (p[16 := c]) = compute_checksum p"
  by (simp add: compute_checksum_eq)

lemma sum_list_17:
  assumes "length p = 17"
  shows "sum_list p = sum_list (take 16 p) + p ! 16"
proof -
  have "take (Suc 16) p = take 16 p @ [p ! 16]"
    by (rule take_Suc_conv_app_nth) (simp add: assms)
  moreover have "take (Suc 16) p = p"
    using assms by simp
  ultimately have "sum_list p = sum_list (take 16 p @ [p ! 16])" by simp
  then show ?thesis by simp
qed

lemma packet_ok_iff:
  "packet_ok p \<longleftrightarrow> length p = 17 \<and> p ! 16 = compute_checksum p"
proof -
  have "sum_list (map unat p) mod 256 = 0x55" if "length p = 17" "p ! 16 = compute_checksum p"
  proof -
    have "sum_list p = 0x55" using that by (simp add: sum_list_17 compute_checksum_eq)
    then have "unat (sum_list p) = 0x55" by simp
    then show ?thesis by (simp add: unat_sum_list_u8)
  qed
  then show ?thesis by (auto simp: packet_ok_def)
qed

lemma packet_ok_update:
  "length p = 17 \<Longrightarrow> packet_ok (p[16 := compute_checksum p])"
  by (simp add: packet_ok_iff)

section \<open>The templates and the simple builders\<close>

lemma length_from_raw_dpi:
  "length (from_raw (dpi_template ! 0)) = 17" "length (from_raw (dpi_template ! 1)) = 17"
  "length (from_raw (dpi_template ! 2)) = 17" "length (from_raw (dpi_template ! 3)) = 17"
  by (simp_all add: from_raw_def dpi_template_def)

lemma replicate_17: "replicate 17 x = [x, x, x, x, x, x, x, x, x, x, x, x, x, x, x, x, x]"
  by (simp add: eval_nat_numeral)

lemma build_polling_rate_packet_eq:
  "build_polling_rate_packet hz =
     [0x08, 0x07, 0, 0, 0, 0x02, polling_code hz, 0x55 - polling_code hz, 0, 0, 0, 0, 0, 0, 0, 0, 0xEF]"
  by (simp add: build_polling_rate_packet_def Let_def compute_checksum_eq replicate_17)

lemma polling_code_cases:
  "polling_code hz = 0x01 \<or> polling_code hz = 0x02 \<or> polling_code hz = 0x04 \<or> polling_code hz = 0x08"
  by (simp add: polling_code_def)

lemma packet_ok_polling: "packet_ok (build_polling_rate_packet hz)"
  by (simp add: build_polling_rate_packet_def Let_def packet_ok_update)

lemma packet_ok_raw_templates:
  "packet_ok (from_raw (led_off ! 0))"
  "packet_ok (from_raw (led_rainbow ! 0))"
  "packet_ok (from_raw (led_rainbow ! Suc 0))"
  "packet_ok (from_raw (unknown2 ! 0))"
  "packet_ok (from_raw (unknown2 ! Suc 0))"
  "packet_ok (from_raw (unknown2 ! 2))"
  by (simp_all add: packet_ok_iff from_raw_def led_off_def led_rainbow_def unknown2_def
      compute_checksum_eq)

lemma length_led_templates:
  "length (from_raw (led_breathing ! 0)) = 17"
  "length (from_raw (led_breathing ! Suc 0)) = 17"
  "length (from_raw (led_static ! 0)) = 17"
  by (simp_all add: from_raw_def led_breathing_def led_static_def)

lemma packet_ok_led: "p \<in> set (build_led_packets mode color brightness speed) \<Longrightarrow> packet_ok p"
  by (cases mode)
     (auto simp: build_led_packets_def Let_def packet_ok_raw_templates length_led_templates
        intro!: packet_ok_update)

lemma length_from_raw_dpi_Suc: "length (from_raw (dpi_template ! Suc 0)) = 17"
  by (simp add: from_raw_def dpi_template_def)

lemma length_set_level_if: "length (set_level_if p off v) = length p"
  by (simp add: set_level_if_def set_level_def split: option.split)

lemma map_from_raw_unknown2:
  "map from_raw unknown2 = [from_raw (unknown2 ! 0), from_raw (unknown2 ! Suc 0), from_raw (unknown2 ! 2)]"
  by (simp add: unknown2_def)

lemma packet_ok_dpi: "p \<in> set (build_dpi_packets dpi) \<Longrightarrow> packet_ok p"
  unfolding build_dpi_packets_def Let_def
  by (auto simp: map_from_raw_unknown2 packet_ok_raw_templates length_set_level_if length_from_raw_dpi
        length_from_raw_dpi_Suc         intro!: packet_ok_update)

section \<open>The events of a combination\<close>

lemma push_mod_events_eq:
  "push_mod_events ty mods bs evts =
     evts @ concat (map (\<lambda>b. [ty, b, 0x00]) (filter (\<lambda>b. mods AND b \<noteq> 0) bs))"
  by (induction bs arbitrary: evts) simp_all

lemma push_key_down_events_eq:
  "push_key_down_events ks evts = evts @ concat (map (\<lambda>k. [0x81, k, 0x00]) ks)"
  by (induction ks arbitrary: evts) simp_all

lemma push_key_up_events_eq:
  "n \<le> length keys \<Longrightarrow>
     push_key_up_events keys n evts = evts @ concat (map (\<lambda>k. [0x41, k, 0x00]) (rev (take n keys)))"
proof (induction n arbitrary: evts)
  case 0
  then show ?case by simp
next
  case (Suc n)
  then have "take (Suc n) keys = take n keys @ [keys ! n]"
    by (simp add: take_Suc_conv_app_nth)
  with Suc show ?case by simp
qed

lemma and_bit_tests:
  "(mods AND 0x01 \<noteq> 0) = bit mods 0" "(mods AND 0x02 \<noteq> 0) = bit mods 1"
  "(mods AND 0x04 \<noteq> 0) = bit mods 2" "(mods AND 0x08 \<noteq> 0) = bit mods 3"
  "(mods AND 0x10 \<noteq> 0) = bit mods 4" "(mods AND 0x20 \<noteq> 0) = bit mods 5"
  "(mods AND 0x40 \<noteq> 0) = bit mods 6" "(mods AND 0x80 \<noteq> 0) = bit mods 7"
  for mods :: u8
  using and_exp_eq_0_iff_not_bit [of mods 0] and_exp_eq_0_iff_not_bit [of mods 1]
    and_exp_eq_0_iff_not_bit [of mods 2] and_exp_eq_0_iff_not_bit [of mods 3]
    and_exp_eq_0_iff_not_bit [of mods 4] and_exp_eq_0_iff_not_bit [of mods 5]
    and_exp_eq_0_iff_not_bit [of mods 6] and_exp_eq_0_iff_not_bit [of mods 7]
  by simp_all

lemma upt_0_8: "[0..<8] = [0, 1, 2, 3, 4, 5, 6, 7]"
  by (simp add: upt_rec)

lemma active_mod_bits:
  "filter (\<lambda>b. mods AND b \<noteq> 0) mod_bits = map (\<lambda>i. 2 ^ i) (filter (bit mods) [0..<8])"
  by (simp add: mod_bits_def upt_0_8 and_bit_tests)

lemma build_events_eq:
  "build_events mods keys =
     concat (map (\<lambda>b. [0x80, b, 0x00]) (map (\<lambda>i. 2 ^ i) (filter (bit mods) [0..<8]))) @
     concat (map (\<lambda>k. [0x81, k, 0x00]) keys) @
     concat (map (\<lambda>b. [0x40, b, 0x00]) (map (\<lambda>i. 2 ^ i) (filter (bit mods) [0..<8]))) @
     concat (map (\<lambda>k. [0x41, k, 0x00]) (rev keys))"
  by (simp add: build_events_def Let_def push_mod_events_eq push_key_down_events_eq
      push_key_up_events_eq active_mod_bits del: map_map)

lemma length_concat_triples: "length (concat (map (\<lambda>b. [x, f b, y]) xs)) = 3 * length xs"
  by (induction xs) simp_all

lemma length_build_events:
  "length (build_events mods keys) = 6 * (length (filter (bit mods) [0..<8]) + length keys)"
proof -
  have "length (concat (map (\<lambda>b. [t, b, 0x00]) (map (\<lambda>i. 2 ^ i) (filter (bit mods) [0..<8]))))
      = 3 * length (filter (bit mods) [0..<8])" for t :: u8
    using length_concat_triples [of t "\<lambda>b. b" "0x00" "map (\<lambda>i. 2 ^ i) (filter (bit mods) [0..<8])"]
    by simp
  moreover have "length (concat (map (\<lambda>k. [t, k, 0x00]) ks)) = 3 * length ks" for t :: u8 and ks
    using length_concat_triples [of t "\<lambda>b. b" "0x00" ks] by simp
  ultimately show ?thesis
    by (simp only: build_events_eq length_append length_rev) simp
qed

lemma ucast_and_ff_16_8: "(ucast ((w :: u16) AND 0xFF) :: u8) = ucast w"
proof -
  have "(0xFF :: u16) = mask 8" by (simp add: mask_eq_exp_minus_1)
  moreover have "(ucast (w AND mask 8) :: u8) = ucast w"
    by (rule bit_word_eqI) (auto simp: bit_simps)
  ultimately show ?thesis by simp
qed

lemma inner_checksum_eq: "inner_checksum count evts = 0x55 - (count + sum_list evts)"
  by (simp add: inner_checksum_def Let_def ucast_and_ff_16_8 fold_ucast_sum ucast_ucast_8_16_8)

section \<open>The sub-packets of a combination\<close>

lemma length_fold_update:
  "length (fold (\<lambda>i p. p[f i := h i]) is p) = length p"
  by (induction "is" arbitrary: p) simp_all

lemma write_byte_length: "write_byte p i v = Inr q \<Longrightarrow> length q = length p"
  by (auto simp: write_byte_def split: if_splits)

lemma fold_write_Inl:
  "fold (\<lambda>i r. case r of Inl e \<Rightarrow> Inl e | Inr p \<Rightarrow> write_byte p (f i) (h i)) is (Inl e) = Inl e"
  by (induction "is") simp_all

lemma fold_write_length:
  "fold (\<lambda>i r. case r of Inl e \<Rightarrow> Inl e | Inr p \<Rightarrow> write_byte p (f i) (h i)) is (Inr p) = Inr q
     \<Longrightarrow> length q = length p"
proof (induction "is" arbitrary: p)
  case Nil
  then show ?case by simp
next
  case (Cons i "is")
  show ?case
  proof (cases "write_byte p (f i) (h i)")
    case (Inl e)
    with Cons.prems show ?thesis by (simp add: fold_write_Inl)
  next
    case (Inr p')
    with Cons.prems have "length q = length p'" by (simp add: Cons.IH)
    with Inr show ?thesis by (simp add: write_byte_length)
  qed
qed

lemma fold_write_overflow:
  assumes "11 < n"
  shows "fold (\<lambda>i r. case r of Inl e \<Rightarrow> Inl e | Inr p \<Rightarrow> write_byte p (6 + i) (h i)) [0..<n] r0
           = Inl OutOfBounds"
proof -
  from assms obtain m where n: "n = Suc m" and m: "11 \<le> m" by (cases n) auto
  let ?f = "\<lambda>i r. case r of Inl e \<Rightarrow> Inl e | Inr p \<Rightarrow> write_byte p (6 + i) (h i)"
  have "fold ?f [0..<n] r0 = ?f m (fold ?f [0..<m] r0)" by (simp add: n)
  also have "\<dots> = Inl OutOfBounds"
  proof (cases "fold ?f [0..<m] r0")
    case (Inl e)
    then show ?thesis by (cases e) simp
  next
    case (Inr p)
    then show ?thesis using m by (simp add: write_byte_def M913_PACKET_SIZE_def)
  qed
  finally show ?thesis .
qed

lemma combo_packets_overflow:
  assumes "4 \<le> length (filter (bit mods) [0..<8]) + length keys"
  shows "combo_packets addr_hi addr_lo mods keys = Inl OutOfBounds"
proof -
  have "24 \<le> length (build_events mods keys)"
    using assms by (simp add: length_build_events)
  then have "11 < length (build_events mods keys) - min 9 (length (build_events mods keys))"
    by simp
  then show ?thesis
    unfolding combo_packets_def Let_def by (simp only: fold_write_overflow sum.case)
qed

lemma fold_update_nth:
  "j < length p \<Longrightarrow>
     fold (\<lambda>i p. p[7 + i := evts ! i]) [0..<k] p ! j =
       (if 7 \<le> j \<and> j < 7 + k then evts ! (j - 7) else p ! j)"
proof (induction k)
  case 0
  then show ?case by auto
next
  case (Suc k)
  let ?F = "fold (\<lambda>i p. p[7 + i := evts ! i]) [0..<k] p"
  have len: "length ?F = length p" by (simp add: length_fold_update)
  have step: "fold (\<lambda>i p. p[7 + i := evts ! i]) [0..<Suc k] p = ?F[7 + k := evts ! k]"
    by simp
  show ?case
  proof (cases "j = 7 + k")
    case True
    with Suc.prems len show ?thesis by (simp only: step) simp
  next
    case False
    with Suc show ?thesis by (simp only: step) auto
  qed
qed

lemma fold_write_ok:
  assumes "length p = 17" and "6 + n \<le> 17"
  shows "\<exists>q. fold (\<lambda>i r. case r of Inl e \<Rightarrow> Inl e | Inr p \<Rightarrow> write_byte p (6 + i) (h i))
               [0..<n] (Inr p) = Inr q \<and> length q = 17 \<and>
             (\<forall>j<17. q ! j = (if 6 \<le> j \<and> j < 6 + n then h (j - 6) else p ! j))"
  using assms(2)
proof (induction n)
  case 0
  then show ?case using assms(1) by auto
next
  case (Suc n)
  let ?f = "\<lambda>i r. case r of Inl e \<Rightarrow> Inl e | Inr p \<Rightarrow> write_byte p (6 + i) (h i)"
  from Suc obtain q where q: "fold ?f [0..<n] (Inr p) = Inr q" "length q = 17"
      "\<forall>j<17. q ! j = (if 6 \<le> j \<and> j < 6 + n then h (j - 6) else p ! j)"
    by auto
  from Suc.prems have lt: "6 + n < 17" by simp
  have "fold ?f [0..<Suc n] (Inr p) = ?f n (fold ?f [0..<n] (Inr p))" by simp
  also have "\<dots> = Inr (q[6 + n := h n])"
    using lt by (simp add: q(1) write_byte_def M913_PACKET_SIZE_def)
  finally have r: "fold ?f [0..<Suc n] (Inr p) = Inr (q[6 + n := h n])" .
  have "\<forall>j<17. q[6 + n := h n] ! j = (if 6 \<le> j \<and> j < 6 + Suc n then h (j - 6) else p ! j)"
    using q(2,3) lt by (auto simp: nth_list_update)
  with r q(2) show ?case by (intro exI [of _ "q[6 + n := h n]"]) simp
qed

lemma combo_packets_ok:
  assumes "length (filter (bit mods) [0..<8]) + length keys \<le> 3"
  shows "\<exists>p1 p2. combo_packets addr_hi addr_lo mods keys = Inr [p1, p2] \<and>
     p1 ! 3 = addr_hi \<and> p1 ! 4 = addr_lo \<and> p1 ! 5 = 0x0a \<and>
     p1 ! 6 = of_nat (length (build_events mods keys) div 3) \<and>
     (\<forall>i<min 9 (length (build_events mods keys)). p1 ! (7 + i) = build_events mods keys ! i) \<and>
     p2 ! 3 = addr_hi \<and> p2 ! 4 = addr_lo + 0x0a \<and>
     p2 ! 5 = of_nat (length (build_events mods keys) - 9 + 1) \<and>
     (\<forall>i<length (build_events mods keys) - 9. p2 ! (6 + i) = build_events mods keys ! (9 + i)) \<and>
     p2 ! (6 + (length (build_events mods keys) - 9)) =
       0x55 - (of_nat (length (build_events mods keys) div 3) + sum_list (build_events mods keys))"
proof -
  define evts where "evts = build_events mods keys"
  define n where "n = length evts"
  define count where "count = (of_nat (n div 3) :: u8)"
  define rem where "rem = n - min 9 n"
  define p1a where "p1a = (replicate 17 (0::u8))[0 := 0x08, 1 := 0x07, 2 := 0x00, 3 := addr_hi,
                4 := addr_lo, 5 := 0x0a, 6 := count]"
  define p1b where "p1b = fold (\<lambda>i p. p[7 + i := evts ! i]) [0..<min 9 n] p1a"
  define p2a where "p2a = (replicate 17 (0::u8))[0 := 0x08, 1 := 0x07, 2 := 0x00, 3 := addr_hi,
                4 := addr_lo + 0x0a, 5 := of_nat (rem + 1)]"
  have n: "n \<le> 18" using assms by (simp add: n_def evts_def length_build_events)
  have rem: "rem = n - 9" by (simp add: rem_def)
  have len1a: "length p1a = 17" by (simp add: p1a_def)
  have len1: "length p1b = 17" by (simp add: p1b_def length_fold_update len1a)
  have p1a: "p1a ! 3 = addr_hi" "p1a ! 4 = addr_lo" "p1a ! 5 = 0x0a" "p1a ! 6 = count"
    by (simp_all add: p1a_def)
  have p1b: "p1b ! j = (if 7 \<le> j \<and> j < 7 + min 9 n then evts ! (j - 7) else p1a ! j)"
    if "j < 17" for j
    unfolding p1b_def using that fold_update_nth [of j p1a evts "min 9 n"] by (simp add: len1a)
  have len2a: "length p2a = 17" by (simp add: p2a_def)
  have p2a: "p2a ! 3 = addr_hi" "p2a ! 4 = addr_lo + 0x0a" "p2a ! 5 = of_nat (rem + 1)"
    by (simp_all add: p2a_def)
  have "6 + rem \<le> 17" using n by (simp add: rem)
  with fold_write_ok [of p2a rem "\<lambda>i. evts ! (min 9 n + i)"] len2a
  obtain q where q: "fold (\<lambda>i r. case r of Inl e \<Rightarrow> Inl e
        | Inr p \<Rightarrow> write_byte p (6 + i) (evts ! (min 9 n + i))) [0..<rem] (Inr p2a) = Inr q"
    "length q = 17"
    "\<forall>j<17. q ! j = (if 6 \<le> j \<and> j < 6 + rem then evts ! (min 9 n + (j - 6)) else p2a ! j)"
    by blast
  define q' where "q' = q[6 + rem := inner_checksum count evts]"
  have w: "write_byte q (6 + rem) (inner_checksum count evts) = Inr q'"
    using n by (simp add: write_byte_def M913_PACKET_SIZE_def q'_def rem)
  have lenq': "length q' = 17" by (simp add: q'_def q(2))
  have combo: "combo_packets addr_hi addr_lo mods keys =
      Inr [p1b[16 := compute_checksum p1b], q'[16 := compute_checksum q']]"
    using q(1) w
    unfolding combo_packets_def Let_def p1b_def p1a_def p2a_def rem_def count_def n_def evts_def
    by (simp only: sum.case)
  have a1: "p1b[16 := compute_checksum p1b] ! 3 = addr_hi"
    "p1b[16 := compute_checksum p1b] ! 4 = addr_lo"
    "p1b[16 := compute_checksum p1b] ! 5 = 0x0a"
    "p1b[16 := compute_checksum p1b] ! 6 = count"
    by (simp_all add: p1b p1a)
  have a2: "\<forall>i<min 9 n. p1b[16 := compute_checksum p1b] ! (7 + i) = evts ! i"
    by (auto simp: p1b)
  have qn: "q' ! j = (if j = 6 + rem then inner_checksum count evts else q ! j)" if "j < 17" for j
    using that q(2) by (auto simp: q'_def nth_list_update)
  have b1: "q'[16 := compute_checksum q'] ! 3 = addr_hi"
    "q'[16 := compute_checksum q'] ! 4 = addr_lo + 0x0a"
    "q'[16 := compute_checksum q'] ! 5 = of_nat (n - 9 + 1)"
    using q(3) by (simp_all add: qn p2a rem)
  have b2: "\<forall>i<n - 9. q'[16 := compute_checksum q'] ! (6 + i) = evts ! (9 + i)"
    using q(3) n by (auto simp: qn rem)
  have b3: "q'[16 := compute_checksum q'] ! (6 + (n - 9)) = 0x55 - (count + sum_list evts)"
    using n by (simp add: qn rem inner_checksum_eq)
  from combo a1 a2 b1 b2 b3 show ?thesis
    unfolding count_def n_def evts_def by blast
qed

section \<open>The button-mapping loop\<close>

lemma packet_ok_multimedia: "packet_ok (multimedia_packet hi lo ab)"
  by (cases ab) (simp add: multimedia_packet_def Let_def packet_ok_update)

lemma length_kb_key_template: "length kb_key_template = 17"
  by (simp add: kb_key_template_def)

lemma packet_ok_single_key: "packet_ok (single_key_packet hi lo k)"
  unfolding single_key_packet_def Let_def
  by (rule packet_ok_update) (simp add: length_kb_key_template)

lemma packet_ok_combo:
  assumes "combo_packets hi lo mods keys = Inr pkts" and "p \<in> set pkts"
  shows "packet_ok p"
  using assms unfolding combo_packets_def Let_def
  by (auto simp: length_fold_update split: sum.splits
        dest!: fold_write_length write_byte_length intro!: packet_ok_update)

lemma packet_ok_kb_sub:
  assumes "kb_sub_packets g b ab = Inr subs" and "p \<in> set subs"
  shows "packet_ok p"
  using assms unfolding kb_sub_packets_def Let_def
  by (auto simp: packet_ok_multimedia packet_ok_single_key
        split: prod.splits if_splits dest: packet_ok_combo)

lemma set_update_all:
  assumes "\<forall>p\<in>set xs. P p" and "P x"
  shows "\<forall>p\<in>set (xs[i := x]). P p"
  using assms set_update_subset_insert [of xs i x] by blast

lemma put_slot_lengths:
  assumes "\<forall>p\<in>set buf. length p = 17" and "p \<in> set (put_slot buf b ab)"
  shows "length p = 17"
proof (cases "b div 2 < length buf")
  case True
  then have len: "length (buf ! (b div 2)) = 17" using assms(1) by simp
  obtain a0 a1 a2 a3 where ab: "ab = (a0, a1, a2, a3)" by (cases ab)
  let ?off = "if b mod 2 = 0 then 6 else (10::nat)"
  let ?x = "(buf ! (b div 2))[?off := a0, ?off + 1 := a1, ?off + 2 := a2, ?off + 3 := a3]"
  have "length ?x = 17" using len by simp
  with assms(1) have "\<forall>p\<in>set (buf[b div 2 := ?x]). length p = 17"
    by (rule set_update_all)
  moreover have "put_slot buf b ab = buf[b div 2 := ?x]"
    by (simp add: put_slot_def Let_def ab)
  ultimately show ?thesis using assms(2) by simp
next
  case False
  then show ?thesis using assms by (cases ab) (simp add: put_slot_def Let_def list_update_beyond)
qed

lemma button_step_inv:
  assumes "button_step g b ab st = Inr st'" and "loop_inv st"
  shows "loop_inv st'"
  using assms unfolding button_step_def loop_inv_def
  by (auto split: prod.splits if_splits sum.splits dest: packet_ok_kb_sub put_slot_lengths)

lemma button_loop_inv:
  "button_loop changes g bs st = Inr st' \<Longrightarrow> loop_inv st \<Longrightarrow> loop_inv st'"
proof (induction bs arbitrary: st)
  case Nil
  then show ?case by simp
next
  case (Cons b bs)
  show ?case
  proof (cases "changes (of_nat b)")
    case None
    with Cons show ?thesis by simp
  next
    case (Some ab)
    with Cons.prems obtain st1 where "button_step g b ab st = Inr st1"
      and "button_loop changes g bs st1 = Inr st'"
      by (auto split: sum.splits)
    with Cons show ?thesis using button_step_inv by blast
  qed
qed

lemma loop_inv_init: "loop_inv (map from_raw default_button_mapping, [])"
  by (simp add: loop_inv_def default_button_mapping_def from_raw_def)

lemma packet_ok_button_mapping:
  assumes "build_button_mapping changes g = Inr (pkts, g')" and "p \<in> set pkts"
  shows "packet_ok p"
proof -
  from assms(1) obtain buf result where
    loop: "button_loop changes g [0..<16] (map from_raw default_button_mapping, []) = Inr (buf, result)"
    and pkts: "pkts = result @ map (\<lambda>p. p[16 := compute_checksum p]) buf"
    by (auto simp: build_button_mapping_def split: sum.splits prod.splits)
  from button_loop_inv [OF loop loop_inv_init]
  have "\<forall>p\<in>set buf. length p = 17" and "\<forall>p\<in>set result. packet_ok p"
    by (simp_all add: loop_inv_def)
  with pkts assms(2) show ?thesis by (auto intro!: packet_ok_update)
qed

lemma build_empty:
  "button_loop Map.empty g bs st = Inr st"
  by (induction bs) simp_all


lemma no_bits_zero: "filter (bit (0::u8)) [0..<8] = []"
  by simp

lemma kb_sub_packets_fits:
  assumes "binding_fits g b ab" and "fst ab = 0x90 \<or> fst ab = 0x92"
  shows "\<exists>subs. kb_sub_packets g b ab = Inr subs"
proof -
  obtain a0 a1 a2 a3 where ab: "ab = (a0, a1, a2, a3)" by (cases ab)
  obtain mods keys where ck: "collect_keys g (of_nat b) a1 a2 a3 = (mods, keys)"
    by (cases "collect_keys g (of_nat b) a1 a2 a3")
  show ?thesis
  proof (cases "a0 = 0x92")
    case True
    then show ?thesis by (simp add: kb_sub_packets_def ab Let_def)
  next
    case n92: False
    with assms(2) have a90: "a0 = 0x90" by (simp add: ab)
    show ?thesis
    proof (cases "mods = 0x00 \<and> length keys = 1")
      case True
      with n92 ck show ?thesis by (simp add: kb_sub_packets_def ab Let_def)
    next
      case False
      from assms(1) ck a90 have "length (filter (bit mods) [0..<8]) + length keys \<le> 3"
        by (simp add: binding_fits_def ab)
      from combo_packets_ok [OF this, of "fst (kb_key_addr ! b)" "snd (kb_key_addr ! b)"]
      obtain p1 p2 where
        "combo_packets (fst (kb_key_addr ! b)) (snd (kb_key_addr ! b)) mods keys = Inr [p1, p2]"
        by blast
      with n92 ck False show ?thesis by (simp add: kb_sub_packets_def ab Let_def)
    qed
  qed
qed

lemma kb_sub_packets_overflow:
  assumes "\<not> binding_fits g b ab"
  shows "kb_sub_packets g b ab = Inl OutOfBounds \<and> fst ab = 0x90"
proof -
  obtain a0 a1 a2 a3 where ab: "ab = (a0, a1, a2, a3)" by (cases ab)
  obtain mods keys where ck: "collect_keys g (of_nat b) a1 a2 a3 = (mods, keys)"
    by (cases "collect_keys g (of_nat b) a1 a2 a3")
  from assms have a90: "a0 = 0x90" by (auto simp: binding_fits_def ab split: if_splits)
  with assms ck have big: "4 \<le> length (filter (bit mods) [0..<8]) + length keys"
    by (simp add: binding_fits_def ab)
  have "\<not> (mods = 0x00 \<and> length keys = 1)"
  proof
    assume "mods = 0x00 \<and> length keys = 1"
    with big show False by (simp add: no_bits_zero)
  qed
  with a90 ck combo_packets_overflow [OF big] show ?thesis
    by (simp add: kb_sub_packets_def ab Let_def)
qed

lemma button_step_fits:
  assumes "binding_fits g b ab"
  shows "\<exists>st'. button_step g b ab st = Inr st'"
proof (cases "fst ab = 0x90 \<or> fst ab = 0x92")
  case True
  from kb_sub_packets_fits [OF assms True] obtain subs where "kb_sub_packets g b ab = Inr subs"
    by blast
  with True show ?thesis by (cases st) (simp add: button_step_def)
next
  case False
  then show ?thesis by (cases st) (simp add: button_step_def)
qed

lemma button_step_overflow:
  assumes "\<not> binding_fits g b ab"
  shows "button_step g b ab st = Inl OutOfBounds"
  using kb_sub_packets_overflow [OF assms] by (cases st) (simp add: button_step_def)

lemma button_loop_fits:
  assumes "list_all (\<lambda>b. case changes (of_nat b) of None \<Rightarrow> True
                          | Some ab \<Rightarrow> binding_fits g b ab) bs"
  shows "\<exists>st'. button_loop changes g bs st = Inr st'"
  using assms
proof (induction bs arbitrary: st)
  case Nil
  then show ?case by simp
next
  case (Cons b bs)
  show ?case
  proof (cases "changes (of_nat b)")
    case None
    with Cons show ?thesis by simp
  next
    case (Some ab)
    with Cons.prems have "binding_fits g b ab" by simp
    from button_step_fits [OF this, of st] obtain st1 where "button_step g b ab st = Inr st1"
      by blast
    moreover from Cons.prems Cons.IH [of st1] obtain st' where
      "button_loop changes g bs st1 = Inr st'" by auto
    ultimately show ?thesis using Some by simp
  qed
qed

lemma button_loop_overflow:
  assumes "\<not> list_all (\<lambda>b. case changes (of_nat b) of None \<Rightarrow> True
                          | Some ab \<Rightarrow> binding_fits g b ab) bs"
  shows "button_loop changes g bs st = Inl OutOfBounds"
  using assms
proof (induction bs arbitrary: st)
  case Nil
  then show ?case by simp
next
  case (Cons b bs)
  show ?case
  proof (cases "changes (of_nat b)")
    case None
    with Cons show ?thesis by simp
  next
    case (Some ab)
    show ?thesis
    proof (cases "binding_fits g b ab")
      case True
      from button_step_fits [OF this, of st] obtain st1 where s: "button_step g b ab st = Inr st1"
        by blast
      from True Some Cons.prems have "\<not> list_all (\<lambda>b. case changes (of_nat b) of None \<Rightarrow> True
                          | Some ab \<Rightarrow> binding_fits g b ab) bs" by simp
      from Cons.IH [OF this, of st1] s Some show ?thesis by simp
    next
      case False
      from button_step_overflow [OF this, of st] Some show ?thesis by simp
    qed
  qed
qed

lemma build_button_mapping_total:
  assumes "all_fit changes g"
  shows "\<exists>pkts. build_button_mapping changes g = Inr (pkts, Map.empty) \<and> list_all packet_ok pkts"
proof -
  from assms button_loop_fits [where changes = changes and g = g and bs = "[0..<16]"
      and st = "(map from_raw default_button_mapping, [])"]
  obtain st' where
    "button_loop changes g [0..<16] (map from_raw default_button_mapping, []) = Inr st'"
    unfolding all_fit_def by blast
  then obtain pkts where b: "build_button_mapping changes g = Inr (pkts, Map.empty)"
    by (cases st') (simp add: build_button_mapping_def clear_multikey_actions_def)
  with packet_ok_button_mapping [OF b] show ?thesis by (auto simp: list_all_iff)
qed

lemma build_button_mapping_overflow:
  assumes "\<not> all_fit changes g"
  shows "build_button_mapping changes g = Inl OutOfBounds"
  using assms button_loop_overflow [where changes = changes and g = g and bs = "[0..<16]"]
  unfolding all_fit_def by (simp add: build_button_mapping_def)

section \<open>The fallback to the first scancode\<close>








section \<open>Concrete runs\<close>

text \<open>
  The binding \<^verbatim>\<open>a+b+c\<close> on button 0, with its action string registered as
  \<^verbatim>\<open>apply_config\<close> does.
\<close>

lemma build_abc:
  "build_button_mapping [0 \<mapsto> (0x90, 0x00, 0x04, 0x03)] [0 \<mapsto> ''a+b+c''] =
     Inr ([[0x08,0x07,0x00,0x01,0x00,0x0a, 0x06, 0x81,0x04,0x00, 0x81,0x05,0x00, 0x81,0x06,0x00, 0xa3],
           [0x08,0x07,0x00,0x01,0x0a,0x0a, 0x41,0x06,0x00, 0x41,0x05,0x00, 0x41,0x04,0x00, 0xeb, 0x74],
           [0x08,0x07,0x00,0x00,0x60,0x08, 0x05,0x00,0x00,0x50, 0x05,0x00,0x00,0x50, 0x00,0x00,0x34],
           [0x08,0x07,0x00,0x00,0x68,0x08, 0x05,0x00,0x00,0x50, 0x01,0x08,0x00,0x4c, 0x00,0x00,0x2c],
           [0x08,0x07,0x00,0x00,0x70,0x08, 0x05,0x00,0x00,0x50, 0x05,0x00,0x00,0x50, 0x00,0x00,0x24],
           [0x08,0x07,0x00,0x00,0x78,0x08, 0x01,0x02,0x00,0x52, 0x01,0x01,0x00,0x53, 0x00,0x00,0x1c],
           [0x08,0x07,0x00,0x00,0x80,0x08, 0x05,0x00,0x00,0x50, 0x05,0x00,0x00,0x50, 0x00,0x00,0x14],
           [0x08,0x07,0x00,0x00,0x88,0x08, 0x01,0x04,0x00,0x50, 0x04,0x3a,0x03,0x14, 0x00,0x00,0x0c],
           [0x08,0x07,0x00,0x00,0x90,0x08, 0x05,0x00,0x00,0x50, 0x05,0x00,0x00,0x50, 0x00,0x00,0x04],
           [0x08,0x07,0x00,0x00,0x98,0x08, 0x05,0x00,0x00,0x50, 0x05,0x00,0x00,0x50, 0x00,0x00,0xfc]],
          Map.empty)"
  by code_simp



section \<open>The DPI builder\<close>

lemma set_level_if_eq: "set_level_if p off v = set_level p off v"
proof -
  have "lookup_dpi 0 = None" by (simp add: lookup_dpi_def dpi_table_def)
  then show ?thesis by (simp add: set_level_if_def set_level_def)
qed

lemma dpi_packet_0:
  "build_dpi_packets dpi ! 0 =
     (let p = set_level (set_level (from_raw (dpi_template ! 0)) 6 (dpi_values dpi ! 0)) 10
                (dpi_values dpi ! 1)
      in p[16 := compute_checksum p])"
  by (simp add: build_dpi_packets_def Let_def set_level_if_eq)

lemma dpi_packet_1:
  "build_dpi_packets dpi ! Suc 0 =
     (let p = set_level (set_level (from_raw (dpi_template ! 1)) 6 (dpi_values dpi ! 2)) 10
                (dpi_values dpi ! 3)
      in p[16 := compute_checksum p])"
  by (simp add: build_dpi_packets_def Let_def set_level_if_eq)

lemma dpi_packet_2:
  "build_dpi_packets dpi ! 2 =
     (let p = set_level (from_raw (dpi_template ! 2)) 6 (dpi_values dpi ! 4)
      in p[16 := compute_checksum p])"
  by (simp add: build_dpi_packets_def Let_def set_level_if_eq)

lemma dpi_packet_3:
  "build_dpi_packets dpi ! 3 =
     (let p = (if num_enabled dpi = 0 then from_raw (dpi_template ! 3)
               else (from_raw (dpi_template ! 3))
                      [6 := fst (enable_bytes dpi), 7 := snd (enable_bytes dpi)])
      in p[16 := compute_checksum p])"
  by (simp add: build_dpi_packets_def Let_def)

lemma slot_0: "slot_result dpi 0"
  by (simp add: slot_result_def dpi_slot_def dpi_packet_0 Let_def set_level_def from_raw_def
      dpi_template_def split: option.split prod.split)

lemma slot_1: "slot_result dpi 1"
  by (simp add: slot_result_def dpi_slot_def dpi_packet_0 Let_def set_level_def from_raw_def
      dpi_template_def split: option.split prod.split)

lemma slot_2: "slot_result dpi 2"
  by (simp add: slot_result_def dpi_slot_def dpi_packet_1 Let_def set_level_def from_raw_def
      dpi_template_def split: option.split prod.split)

lemma slot_3: "slot_result dpi 3"
  by (simp add: slot_result_def dpi_slot_def dpi_packet_1 Let_def set_level_def from_raw_def
      dpi_template_def split: option.split prod.split)

lemma slot_4: "slot_result dpi 4"
  by (simp add: slot_result_def dpi_slot_def dpi_packet_2 Let_def set_level_def from_raw_def
      dpi_template_def split: option.split prod.split)

lemma lookup_in_map_of: "lookup_in es v = map_of es v"
  by (induction es) auto

lemma distinct_dpi_table: "distinct (map fst dpi_table)"
  by (simp add: dpi_table_def)

lemma lookup_dpi_table: "lookup_dpi v = Some c \<longleftrightarrow> (v, c) \<in> set dpi_table"
  by (simp add: lookup_dpi_def lookup_in_map_of distinct_dpi_table)

lemma slot_result_all: "s < 5 \<Longrightarrow> slot_result dpi s"
proof -
  assume "s < 5"
  then have "s = 0 \<or> s = 1 \<or> s = 2 \<or> s = 3 \<or> s = 4" by arith
  then show ?thesis using slot_0 slot_1 slot_2 slot_3 slot_4 by blast
qed

lemma num_enabled_zero:
  "num_enabled dpi = 0 \<longleftrightarrow>
     \<not> dpi_enabled dpi ! 0 \<and> \<not> dpi_enabled dpi ! 1 \<and> \<not> dpi_enabled dpi ! 2 \<and>
     \<not> dpi_enabled dpi ! 3 \<and> \<not> dpi_enabled dpi ! 4"
proof -
  have "[0..<5] = [0, 1, 2, 3, 4]" by (simp add: upt_rec)
  then show ?thesis by (auto simp: num_enabled_def)
qed

lemma enable_bytes_lowest: "enable_bytes dpi = lowest_disabled_pair dpi"
  by (simp add: enable_bytes_def lowest_disabled_pair_def disabled_levels_def level_pair_def Let_def)

lemma enable_pair_built:
  "enable_pair_of (build_dpi_packets dpi) =
     (if num_enabled dpi = 0 then (dpi_template ! 3 ! 6, dpi_template ! 3 ! 7)
      else enable_bytes dpi)"
  by (simp add: enable_pair_of_def dpi_packet_3 Let_def from_raw_def dpi_template_def)

text \<open>
  What the cascade of \<^verbatim>\<open>if\<close> statements writes: each later statement overwrites
  the pair, so the lowest-numbered disabled level among 2..5 decides.
\<close>

lemma enable_pair_cascade:
  "enable_pair_of (build_dpi_packets dpi) =
     (if num_enabled dpi = 0 then (dpi_template ! 3 ! 6, dpi_template ! 3 ! 7)
      else lowest_disabled_pair dpi) \<and>
   (num_enabled dpi = 0 \<longleftrightarrow>
     \<not> dpi_enabled dpi ! 0 \<and> \<not> dpi_enabled dpi ! 1 \<and> \<not> dpi_enabled dpi ! 2 \<and>
     \<not> dpi_enabled dpi ! 3 \<and> \<not> dpi_enabled dpi ! 4) \<and>
   (dpi_template ! 3 ! 6, dpi_template ! 3 ! 7) = (0x05, 0x50) \<and>
   enable_pair_of (build_dpi_packets
     \<lparr>dpi_values = vs, dpi_enabled = [True, True, True, True, False]\<rparr>) = (0x04, 0x51) \<and>
   enable_pair_of (build_dpi_packets
     \<lparr>dpi_values = vs, dpi_enabled = [False, False, False, False, False]\<rparr>) = (0x05, 0x50)"
proof -
  have "(dpi_template ! 3 ! 6, dpi_template ! 3 ! 7) = (0x05, 0x50)"
    by (simp add: dpi_template_def)
  moreover have "enable_pair_of (build_dpi_packets
     \<lparr>dpi_values = vs, dpi_enabled = [True, True, True, True, False]\<rparr>) = (0x04, 0x51)"
    by (simp add: enable_pair_built num_enabled_zero enable_bytes_def)
  moreover have "enable_pair_of (build_dpi_packets
     \<lparr>dpi_values = vs, dpi_enabled = [False, False, False, False, False]\<rparr>) = (0x05, 0x50)"
    by (simp add: enable_pair_built num_enabled_zero dpi_template_def)
  ultimately show ?thesis
    using num_enabled_zero [of dpi] by (simp add: enable_pair_built enable_bytes_lowest)
qed

section \<open>Parsing action names\<close>

lemma ucast_and_ff_32_8: "(ucast ((w :: u32) AND 0xFF) :: u8) = ucast w"
proof -
  have "(0xFF :: u32) = mask 8" by (simp add: mask_eq_exp_minus_1)
  moreover have "(ucast (w AND mask 8) :: u8) = ucast w"
    by (rule bit_word_eqI) (auto simp: bit_simps)
  ultimately show ?thesis by simp
qed

lemma fire_checksum_eq:
  "fire_checksum speed ntimes = word_of_int (0x55 - (0x04 + speed + ntimes))"
proof -
  have "fire_checksum speed ntimes
      = ucast (word_of_int (0x55 - (0x04 + speed + ntimes)) :: u32)"
    by (simp add: fire_checksum_def ucast_and_ff_32_8)
  also have "\<dots> = word_of_int (0x55 - (0x04 + speed + ntimes))"
    by (rule ucast_down_wi) (simp add: is_down)
  finally show ?thesis .
qed

lemma parse_parts_unrecognized:
  "\<exists>t\<in>set ps. \<not> recognized t \<Longrightarrow> parse_parts ps mods keys = None"
proof (induction ps arbitrary: mods keys)
  case Nil
  then show ?case by simp
next
  case (Cons p ps)
  show ?case
  proof (cases "recognized p")
    case True
    with Cons.prems have "\<exists>t\<in>set ps. \<not> recognized t" by auto
    then have "\<And>m k. parse_parts ps m k = None" by (rule Cons.IH)
    then show ?thesis by (simp split: option.splits)
  next
    case False
    then have "map_of modifier_bits p = None" and "map_of key_codes p = None"
      by (simp_all add: recognized_def map_of_eq_None_iff)
    then show ?thesis by simp
  qed
qed

lemma parse_parts_recognized:
  "\<forall>t\<in>set ps. recognized t \<Longrightarrow>
     \<exists>mods' ks. parse_parts ps mods keys = Some (mods', keys @ ks) \<and>
       length ks = length (filter (\<lambda>t. \<not> is_modifier t) ps)"
proof (induction ps arbitrary: mods keys)
  case Nil
  then show ?case by simp
next
  case (Cons p ps)
  then have rest: "\<forall>t\<in>set ps. recognized t" and p: "recognized p" by simp_all
  show ?case
  proof (cases "map_of modifier_bits p")
    case (Some m)
    then have "is_modifier p"
      by (auto simp: is_modifier_def dest: map_of_SomeD intro: image_eqI [where x = "(p, m)"])
    with Some Cons.IH [OF rest, of "mods OR m" keys] show ?thesis by simp
  next
    case None
    then have nm: "\<not> is_modifier p" by (simp add: is_modifier_def map_of_eq_None_iff)
    with p have "p \<in> fst ` set key_codes" by (simp add: recognized_def is_modifier_def)
    then have "map_of key_codes p \<noteq> None" by (simp add: map_of_eq_None_iff)
    then obtain k where k: "map_of key_codes p = Some k" by auto
    from Cons.IH [OF rest, of mods "keys @ [k]"] obtain mods' ks where
      "parse_parts ps mods (keys @ [k]) = Some (mods', (keys @ [k]) @ ks)"
      "length ks = length (filter (\<lambda>t. \<not> is_modifier t) ps)" by blast
    with None k nm show ?thesis by (intro exI [of _ mods'] exI [of _ "k # ks"]) simp
  qed
qed

lemma parse_action_combo:
  assumes "\<not> is_fire s" and "\<not> is_literal s"
  shows "parse_action s =
     (if lower_tokens s = [] then None
      else case parse_parts (lower_tokens s) 0x00 [] of
             None \<Rightarrow> None
           | Some (mods, keys) \<Rightarrow>
               if keys = [] then Some (0x90, mods, 0x00, 0x00)
               else if length keys = 1 then Some (0x90, mods, keys ! 0, 0x00)
               else if 255 < length keys then None
               else Some (0x90, mods, keys ! 0, of_nat (length keys)))"
proof -
  from assms(2) have "map_of mouse_actions (to_lower s) = None"
    by (simp add: is_literal_def map_of_eq_None_iff)
  with assms(1) show ?thesis
    by (simp add: parse_action_def is_fire_def lower_tokens_def Let_def)
qed

lemma parse_action_combo_fails:
  assumes "\<not> is_fire s" and "\<not> is_literal s"
  shows "parse_action s = None \<longleftrightarrow>
     lower_tokens s = [] \<or> (\<exists>t\<in>set (lower_tokens s). \<not> recognized t) \<or>
     255 < length (key_tokens s)"
proof (cases "\<exists>t\<in>set (lower_tokens s). \<not> recognized t")
  case True
  then have "parse_parts (lower_tokens s) 0x00 [] = None" by (rule parse_parts_unrecognized)
  with True show ?thesis by (simp add: parse_action_combo [OF assms])
next
  case False
  then have "\<forall>t\<in>set (lower_tokens s). recognized t" by blast
  from parse_parts_recognized [OF this, of "0x00" "[]"] obtain mods ks where
    pp: "parse_parts (lower_tokens s) 0x00 [] = Some (mods, ks)"
    and len: "length ks = length (key_tokens s)"
    by (auto simp: key_tokens_def)
  have "255 < length ks \<Longrightarrow> ks \<noteq> [] \<and> length ks \<noteq> 1" by auto
  with False pp len show ?thesis
    by (auto simp: parse_action_combo [OF assms])
qed

lemma parse_action_literal:
  assumes "\<not> is_fire s" and "is_literal s"
  shows "parse_action s = map_of mouse_actions (to_lower s) \<and> parse_action s \<noteq> None"
proof -
  from assms(2) have "map_of mouse_actions (to_lower s) \<noteq> None"
    by (simp add: is_literal_def map_of_eq_None_iff)
  with assms(1) show ?thesis
    by (auto simp: parse_action_def is_fire_def Let_def)
qed

lemma parse_action_fire:
  assumes "is_fire s"
  shows "parse_action s = Some ab \<longleftrightarrow>
     (\<exists>p0 p1 p2 speed ntimes.
        split (to_lower s) CHR '':'' = [p0, p1, p2] \<and>
        stoi p1 = Some speed \<and> stoi p2 = Some ntimes \<and>
        3 \<le> speed \<and> speed \<le> 255 \<and> 0 \<le> ntimes \<and> ntimes \<le> 3 \<and>
        ab = (0x04, word_of_int speed, word_of_int ntimes, fire_checksum speed ntimes))"
proof (cases "length (split (to_lower s) CHR '':'') = 3")
  case True
  then obtain p0 p1 p2 where parts: "split (to_lower s) CHR '':'' = [p0, p1, p2]"
    by (auto simp: length_Suc_conv eval_nat_numeral)
  with assms show ?thesis
    by (auto simp: parse_action_def is_fire_def Let_def split: option.splits)
next
  case False
  with assms show ?thesis
    by (auto simp: parse_action_def is_fire_def Let_def)
qed

lemma parse_action_case_insensitive:
  "to_lower s = to_lower s' \<Longrightarrow> parse_action s = parse_action s'"
  by (simp add: parse_action_def)

section \<open>The claims\<close>

text \<open>
  C1. Every packet of every builder should satisfy the checksum invariant, for
  every input: 17 bytes whose sum is 0x55 modulo 256, byte 16 being the value of
  \<^const>\<open>compute_checksum\<close>, which is (0x55 - sum of bytes 0..15) mod 256. The DPI,
  LED and polling-rate builders do so for every input.
  \<^const>\<open>build_button_mapping\<close> returns a sequence, all of whose packets satisfy the
  invariant, exactly when every binding fits; when one does not, it writes past
  the end of a packet and returns no sequence. \<^verbatim>\<open>ctrl+shift+alt+a\<close> is such a
  binding: three modifiers and a key.
\<close>

theorem checksum_invariant:
  "list_all packet_ok (build_dpi_packets dpi) \<and>
   list_all packet_ok (build_led_packets mode color brightness speed) \<and>
   packet_ok (build_polling_rate_packet hz) \<and>
   (all_fit changes g \<longrightarrow>
      (\<exists>pkts. build_button_mapping changes g = Inr (pkts, Map.empty) \<and> list_all packet_ok pkts)) \<and>
   (\<not> all_fit changes g \<longrightarrow> build_button_mapping changes g = Inl OutOfBounds) \<and>
   uint (compute_checksum q) = (0x55 - sum_list (map uint (take 16 q))) mod 256 \<and>
   parse_action ''ctrl+shift+alt+a'' = Some (0x90, 0x07, 0x04, 0x00) \<and>
   build_button_mapping [0 \<mapsto> (0x90, 0x07, 0x04, 0x00)] Map.empty = Inl OutOfBounds"
proof -
  have "list_all packet_ok (build_dpi_packets dpi)"
    using packet_ok_dpi by (simp add: list_all_iff)
  moreover have "list_all packet_ok (build_led_packets mode color brightness speed)"
    using packet_ok_led by (simp add: list_all_iff)
  moreover have "parse_action ''ctrl+shift+alt+a'' = Some (0x90, 0x07, 0x04, 0x00)"
    by code_simp
  moreover have "build_button_mapping [0 \<mapsto> (0x90, 0x07, 0x04, 0x00)] Map.empty
      = Inl OutOfBounds"
    by code_simp
  ultimately show ?thesis
    using packet_ok_polling uint_compute_checksum build_button_mapping_total
      build_button_mapping_overflow
    by blast
qed

theorem checksum_invariant_witness:
  "(\<exists>pkts. build_button_mapping [0 \<mapsto> (0x90, 0x00, 0x04, 0x03)] [0 \<mapsto> ''a+b+c'']
             = Inr (pkts, Map.empty) \<and> list_all packet_ok pkts) \<and>
   all_fit [0 \<mapsto> (0x90, 0x00, 0x04, 0x03)] [0 \<mapsto> ''a+b+c''] \<and>
   build_button_mapping [0 \<mapsto> (0x90, 0x00, 0x04, 0x04)] [0 \<mapsto> ''a+b+c+d''] = Inl OutOfBounds \<and>
   \<not> all_fit [0 \<mapsto> (0x90, 0x00, 0x04, 0x04)] [0 \<mapsto> ''a+b+c+d'']"
proof -
  have f: "all_fit [0 \<mapsto> (0x90, 0x00, 0x04, 0x03)] [0 \<mapsto> ''a+b+c'']" by code_simp
  have n: "\<not> all_fit [0 \<mapsto> (0x90, 0x00, 0x04, 0x04)] [0 \<mapsto> ''a+b+c+d'']" by code_simp
  note t1 = checksum_invariant [where changes = "[0 \<mapsto> (0x90, 0x00, 0x04, 0x03)]"
      and g = "[0 \<mapsto> ''a+b+c'']"]
  note t2 = checksum_invariant [where changes = "[0 \<mapsto> (0x90, 0x00, 0x04, 0x04)]"
      and g = "[0 \<mapsto> ''a+b+c+d'']"]
  from t1 f have "\<exists>pkts. build_button_mapping [0 \<mapsto> (0x90, 0x00, 0x04, 0x03)] [0 \<mapsto> ''a+b+c'']
             = Inr (pkts, Map.empty) \<and> list_all packet_ok pkts" by blast
  moreover from t2 n have "build_button_mapping [0 \<mapsto> (0x90, 0x00, 0x04, 0x04)]
      [0 \<mapsto> ''a+b+c+d''] = Inl OutOfBounds" by blast
  ultimately show ?thesis using f n by blast
qed

text \<open>
  C2. The event list of a combination is: a down-event (0x80) for every set
  modifier bit, from bit 0 upwards; a down-event (0x81) for every key, in the order
  given; an up-event (0x40) for every set modifier bit, in the same order; an
  up-event (0x41) for every key, in reverse order. Every event is three bytes:
  type, code, 0. Built for \<^verbatim>\<open>a+b+c\<close>, the two sub-packets carry the down-events
  of a, b, c and then the up-events of c, b, a.
\<close>

theorem event_order:
  "build_events mods keys =
     concat (map (\<lambda>b. [0x80, b, 0x00]) (map (\<lambda>i. 2 ^ i) (filter (bit mods) [0..<8]))) @
     concat (map (\<lambda>k. [0x81, k, 0x00]) keys) @
     concat (map (\<lambda>b. [0x40, b, 0x00]) (map (\<lambda>i. 2 ^ i) (filter (bit mods) [0..<8]))) @
     concat (map (\<lambda>k. [0x41, k, 0x00]) (rev keys)) \<and>
   parse_action ''a+b+c'' = Some (0x90, 0x00, 0x04, 0x03) \<and>
   parse_multikey ''a+b+c'' = Some (0x00, [0x04, 0x05, 0x06]) \<and>
   build_events 0x00 [0x04, 0x05, 0x06] =
     [0x81,0x04,0x00, 0x81,0x05,0x00, 0x81,0x06,0x00, 0x41,0x06,0x00, 0x41,0x05,0x00, 0x41,0x04,0x00] \<and>
   (case build_button_mapping [0 \<mapsto> (0x90, 0x00, 0x04, 0x03)]
           (register_multikey_action 0 ''a+b+c'' Map.empty) of
      Inl e \<Rightarrow> []
    | Inr (pkts, g') \<Rightarrow> take 2 pkts) =
     [[0x08,0x07,0x00,0x01,0x00,0x0a, 0x06, 0x81,0x04,0x00, 0x81,0x05,0x00, 0x81,0x06,0x00, 0xa3],
      [0x08,0x07,0x00,0x01,0x0a,0x0a, 0x41,0x06,0x00, 0x41,0x05,0x00, 0x41,0x04,0x00, 0xeb, 0x74]]"
proof -
  have "parse_action ''a+b+c'' = Some (0x90, 0x00, 0x04, 0x03)" by code_simp
  moreover have "parse_multikey ''a+b+c'' = Some (0x00, [0x04, 0x05, 0x06])" by code_simp
  moreover have "build_events 0x00 [0x04, 0x05, 0x06] =
     [0x81,0x04,0x00, 0x81,0x05,0x00, 0x81,0x06,0x00, 0x41,0x06,0x00, 0x41,0x05,0x00, 0x41,0x04,0x00]"
    by code_simp
  ultimately show ?thesis
    using build_events_eq [of mods keys] by (simp add: register_multikey_action_def build_abc)
qed

text \<open>
  C3. Every combination should give two sub-packets, the first with the count
  and the first nine event bytes, the second, at the button's address plus 0x0A,
  with the remaining event bytes and the inner checksum
  0x55 - (count + sum of the event bytes). The code does so when the modifiers
  and keys of the combination number three or fewer (\<open>combo_packets_ok\<close>,
  \<open>inner_checksum_eq\<close>). It does not for four or more
  (\<open>combo_packets_overflow\<close>): \<^verbatim>\<open>a+b+c+d\<close> has 24 event bytes, 15 of them left
  for the second packet, and the loop that copies them writes past byte 16 of
  the 17-byte array.
\<close>

theorem combo_overflow:
  "parse_action ''a+b+c+d'' = Some (0x90, 0x00, 0x04, 0x04) \<and>
   parse_multikey ''a+b+c+d'' = Some (0x00, [0x04, 0x05, 0x06, 0x07]) \<and>
   length (build_events 0x00 [0x04, 0x05, 0x06, 0x07]) = 24 \<and>
   combo_packets 0x01 0x00 0x00 [0x04, 0x05, 0x06, 0x07] = Inl OutOfBounds \<and>
   build_button_mapping [0 \<mapsto> (0x90, 0x00, 0x04, 0x04)]
     (register_multikey_action 0 ''a+b+c+d'' Map.empty) = Inl OutOfBounds"
proof -
  have "parse_action ''a+b+c+d'' = Some (0x90, 0x00, 0x04, 0x04)" by code_simp
  moreover have "parse_multikey ''a+b+c+d'' = Some (0x00, [0x04, 0x05, 0x06, 0x07])" by code_simp
  moreover have "length (build_events 0x00 [0x04, 0x05, 0x06, 0x07]) = 24" by code_simp
  moreover have "combo_packets 0x01 0x00 0x00 [0x04, 0x05, 0x06, 0x07] = Inl OutOfBounds"
    by code_simp
  moreover have "build_button_mapping [0 \<mapsto> (0x90, 0x00, 0x04, 0x04)]
     (register_multikey_action 0 ''a+b+c+d'' Map.empty) = Inl OutOfBounds"
    by code_simp
  ultimately show ?thesis by blast
qed

text \<open>
  C4. The enable pair of the fourth DPI packet should come from the
  highest-numbered disabled level among 2..5, as the comment in the source says
  too. With levels 4 and 5 disabled the code writes 03 52, the pair of level 4,
  the lowest-numbered disabled level; the pair of level 5 is 04 51. The other
  parts hold: disabling level 5 alone gives 04 51, and with all five levels
  disabled the pair stays at the template's 05 50.
\<close>

theorem dpi_enable_levels_4_5:
  "enable_pair_of (build_dpi_packets
     \<lparr>dpi_values = vs, dpi_enabled = [True, True, True, False, False]\<rparr>) = (0x03, 0x52) \<and>
   disabled_levels \<lparr>dpi_values = vs, dpi_enabled = [True, True, True, False, False]\<rparr> = [4, 5] \<and>
   highest_disabled_pair
     \<lparr>dpi_values = vs, dpi_enabled = [True, True, True, False, False]\<rparr> = (0x04, 0x51) \<and>
   lowest_disabled_pair
     \<lparr>dpi_values = vs, dpi_enabled = [True, True, True, False, False]\<rparr> = (0x03, 0x52) \<and>
   build_dpi_packets \<lparr>dpi_values = [800, 1600, 2400, 3200, 5000],
                       dpi_enabled = [True, True, True, False, False]\<rparr> ! 3 =
     [0x08,0x07,0x00,0x00,0x02,0x02, 0x03,0x52,0x00,0x00, 0x00,0x00,0x00,0x00, 0x00,0x00,0xed] \<and>
   enable_pair_of (build_dpi_packets
     \<lparr>dpi_values = vs, dpi_enabled = [True, True, True, True, False]\<rparr>) = (0x04, 0x51) \<and>
   enable_pair_of (build_dpi_packets
     \<lparr>dpi_values = vs, dpi_enabled = [False, False, False, False, False]\<rparr>) = (0x05, 0x50)"
proof -
  have "build_dpi_packets \<lparr>dpi_values = [800, 1600, 2400, 3200, 5000],
                       dpi_enabled = [True, True, True, False, False]\<rparr> ! 3 =
     [0x08,0x07,0x00,0x00,0x02,0x02, 0x03,0x52,0x00,0x00, 0x00,0x00,0x00,0x00, 0x00,0x00,0xed]"
    by code_simp
  then show ?thesis
    by (simp add: enable_pair_built num_enabled_zero enable_bytes_def highest_disabled_pair_def
        lowest_disabled_pair_def disabled_levels_def level_pair_def dpi_template_def)
qed

text \<open>
  C5. \<^verbatim>\<open>parse_action("left")\<close> succeeds with the bytes 01 01 00 53, and
  \<^verbatim>\<open>parse_action("fire:50:2")\<close> succeeds with 04 32 02 1D, where the fourth byte
  of a fire action is (0x55 - (0x04 + speed + repeat)) mod 256.
\<close>

theorem parse_action_examples:
  "parse_action ''left'' = Some (0x01, 0x01, 0x00, 0x53) \<and>
   parse_action ''fire:50:2'' = Some (0x04, 50, 2, 0x1D) \<and>
   fire_checksum 50 2 = 0x1D \<and>
   uint (fire_checksum speed ntimes) = (0x55 - (0x04 + speed + ntimes)) mod 256"
proof -
  have "parse_action ''left'' = Some (0x01, 0x01, 0x00, 0x53)" by code_simp
  moreover have "parse_action ''fire:50:2'' = Some (0x04, 50, 2, 0x1D)" by code_simp
  moreover have "fire_checksum 50 2 = 0x1D" by (simp add: fire_checksum_eq)
  moreover have "uint (fire_checksum speed ntimes) = (0x55 - (0x04 + speed + ntimes)) mod 256"
    by (simp only: fire_checksum_eq uint_word_of_int) simp
  ultimately show ?thesis by blast
qed

text \<open>
  C6 as stated, with success for every combination of zero or more modifiers and
  zero, one or many keys, fails for the combination with no token at all: the
  strings \<^verbatim>\<open>+\<close> and the empty string are no fixed action and no \<^verbatim>\<open>fire:\<close> form,
  have no unrecognized token and no key, and are refused.
\<close>

theorem empty_combination_counterexample:
  "lower_tokens ''+'' = [] \<and> key_tokens ''+'' = [] \<and>
   \<not> is_fire ''+'' \<and> \<not> is_literal ''+'' \<and>
   parse_action ''+'' = None \<and> parse_action '''' = None"
proof -
  have "lower_tokens ''+'' = []" "key_tokens ''+'' = []" by code_simp+
  moreover have "\<not> is_fire ''+''" "\<not> is_literal ''+''" by code_simp+
  moreover have "parse_action ''+'' = None" "parse_action '''' = None" by code_simp+
  ultimately show ?thesis by blast
qed

text \<open>
  C6, amended. Two strings with the same lower-cased form parse alike. A string
  whose lower-cased form starts with \<^verbatim>\<open>fire:\<close> succeeds exactly when it has three
  parts between colons, both numbers are read, the speed is in 3..255 and the
  repeat count in 0..3. Any other string that is a fixed action name succeeds
  with the bytes of the table. Every remaining string is read as a combination
  and fails exactly when it has no token, or a token that is neither a modifier
  nor a key, or more than 255 keys.
\<close>

theorem parse_action_failures:
  "(to_lower s = to_lower s' \<longrightarrow> parse_action s = parse_action s') \<and>
   (is_fire s \<longrightarrow>
      (parse_action s = Some ab \<longleftrightarrow>
         (\<exists>p0 p1 p2 speed ntimes.
            split (to_lower s) CHR '':'' = [p0, p1, p2] \<and>
            stoi p1 = Some speed \<and> stoi p2 = Some ntimes \<and>
            3 \<le> speed \<and> speed \<le> 255 \<and> 0 \<le> ntimes \<and> ntimes \<le> 3 \<and>
            ab = (0x04, word_of_int speed, word_of_int ntimes, fire_checksum speed ntimes)))) \<and>
   (\<not> is_fire s \<and> is_literal s \<longrightarrow>
      parse_action s = map_of mouse_actions (to_lower s) \<and> parse_action s \<noteq> None) \<and>
   (\<not> is_fire s \<and> \<not> is_literal s \<longrightarrow>
      (parse_action s = None \<longleftrightarrow>
         lower_tokens s = [] \<or> (\<exists>t\<in>set (lower_tokens s). \<not> recognized t) \<or>
         255 < length (key_tokens s)))"
  using parse_action_case_insensitive [of s s'] parse_action_fire [of s ab]
    parse_action_literal [of s] parse_action_combo_fails [of s]
  by blast

theorem parse_action_failures_witness:
  "parse_action ''CTRL+c'' = parse_action ''ctrl+C'' \<and>
   parse_action ''Fire:2:1'' \<noteq> Some (0x04, 0x02, 0x01, 0x4E) \<and>
   parse_action ''LEFT'' = Some (0x01, 0x01, 0x00, 0x53) \<and>
   parse_action ''Ctrl+Qq'' = None \<and>
   parse_action ''Ctrl+Q'' \<noteq> None"
proof -
  have "to_lower ''CTRL+c'' = to_lower ''ctrl+C''" by code_simp
  then have a: "parse_action ''CTRL+c'' = parse_action ''ctrl+C''"
    using parse_action_failures [of "''CTRL+c''" "''ctrl+C''"] by blast
  have "is_fire ''Fire:2:1''" by code_simp
  moreover have "split (to_lower ''Fire:2:1'') CHR '':'' = [''fire'', ''2'', ''1'']" by code_simp
  moreover have "stoi ''2'' = Some 2" by code_simp
  ultimately have b: "parse_action ''Fire:2:1'' \<noteq> Some (0x04, 0x02, 0x01, 0x4E)"
    using parse_action_failures [of "''Fire:2:1''" "''Fire:2:1''" "(0x04, 0x02, 0x01, 0x4E)"]
    by auto
  have "\<not> is_fire ''LEFT''" "is_literal ''LEFT''" by code_simp+
  moreover have "map_of mouse_actions (to_lower ''LEFT'') = Some (0x01, 0x01, 0x00, 0x53)"
    by code_simp
  ultimately have c: "parse_action ''LEFT'' = Some (0x01, 0x01, 0x00, 0x53)"
    using parse_action_failures [of "''LEFT''" "''LEFT''"] by simp
  have nf: "\<not> is_fire ''Ctrl+Qq''" "\<not> is_literal ''Ctrl+Qq''" by code_simp+
  have "lower_tokens ''Ctrl+Qq'' = [''ctrl'', ''qq'']" by code_simp
  moreover have "\<not> recognized ''qq''" by code_simp
  ultimately have d: "parse_action ''Ctrl+Qq'' = None"
    using nf parse_action_failures [of "''Ctrl+Qq''" "''Ctrl+Qq''"] by simp
  have nf': "\<not> is_fire ''Ctrl+Q''" "\<not> is_literal ''Ctrl+Q''" by code_simp+
  have "lower_tokens ''Ctrl+Q'' = [''ctrl'', ''q'']" by code_simp
  moreover have "recognized ''ctrl''" "recognized ''q''" by code_simp+
  moreover have "key_tokens ''Ctrl+Q'' = [''q'']" by code_simp
  ultimately have e: "parse_action ''Ctrl+Q'' \<noteq> None"
    using nf' parse_action_failures [of "''Ctrl+Q''" "''Ctrl+Q''"] by simp
  from a b c d e show ?thesis by blast
qed

text \<open>
  C7. For each of the five DPI slots, \<^const>\<open>build_dpi_packets\<close> writes the three
  code bytes exactly when the value is a key of the DPI table (the table has no
  key twice), and leaves the four template bytes of the slot as they are when
  it is not: 3300 is no key and leaves the template; 3200 writes 26 26 09.
\<close>

theorem dpi_exact_match:
  "(s < 5 \<longrightarrow>
     (let pkt = fst (dpi_slot s); off = snd (dpi_slot s);
          p = build_dpi_packets dpi ! pkt; t = dpi_template ! pkt
      in case lookup_dpi (dpi_values dpi ! s) of
           None \<Rightarrow> p ! off = t ! off \<and> p ! (off + 1) = t ! (off + 1) \<and>
                   p ! (off + 2) = t ! (off + 2) \<and> p ! (off + 3) = t ! (off + 3)
         | Some (c0, c1, c2) \<Rightarrow> p ! off = c0 \<and> p ! (off + 1) = c1 \<and>
                   p ! (off + 2) = t ! (off + 2) \<and> p ! (off + 3) = c2)) \<and>
   (lookup_dpi v = Some c \<longleftrightarrow> (v, c) \<in> set dpi_table) \<and>
   lookup_dpi 3300 = None \<and>
   lookup_dpi 3200 = Some (0x26, 0x26, 0x09) \<and>
   build_dpi_packets \<lparr>dpi_values = [3300, 3200, 0, 0, 0],
                       dpi_enabled = [True, True, True, True, True]\<rparr> ! 0 =
     [0x08,0x07,0x00,0x00,0x0c,0x08, 0x00,0x00,0x00,0x55, 0x26,0x26,0x00,0x09, 0x00,0x00,0x88]"
proof -
  have "lookup_dpi 3300 = None" by (simp add: lookup_dpi_def dpi_table_def)
  moreover have "lookup_dpi 3200 = Some (0x26, 0x26, 0x09)"
    by (simp add: lookup_dpi_def dpi_table_def)
  moreover have "build_dpi_packets \<lparr>dpi_values = [3300, 3200, 0, 0, 0],
                       dpi_enabled = [True, True, True, True, True]\<rparr> ! 0 =
     [0x08,0x07,0x00,0x00,0x0c,0x08, 0x00,0x00,0x00,0x55, 0x26,0x26,0x00,0x09, 0x00,0x00,0x88]"
    by code_simp
  ultimately show ?thesis
    using slot_result_all [of s dpi] lookup_dpi_table [of v c]
    by (simp add: slot_result_def)
qed

theorem dpi_exact_match_witness:
  "build_dpi_packets \<lparr>dpi_values = [3300, 3200, 0, 0, 0],
                       dpi_enabled = [True, True, True, True, True]\<rparr> ! 0 ! 10 = 0x26 \<and>
   build_dpi_packets \<lparr>dpi_values = [3300, 3200, 0, 0, 0],
                       dpi_enabled = [True, True, True, True, True]\<rparr> ! 0 ! 11 = 0x26 \<and>
   build_dpi_packets \<lparr>dpi_values = [3300, 3200, 0, 0, 0],
                       dpi_enabled = [True, True, True, True, True]\<rparr> ! 0 ! 13 = 0x09 \<and>
   build_dpi_packets \<lparr>dpi_values = [3300, 3200, 0, 0, 0],
                       dpi_enabled = [True, True, True, True, True]\<rparr> ! 0 ! 6 = dpi_template ! 0 ! 6 \<and>
   (1::nat) < 5 \<and> (0::nat) < 5"
proof -
  let ?d = "\<lparr>dpi_values = [3300, 3200, 0, 0, 0], dpi_enabled = [True, True, True, True, True]\<rparr>"
  have l: "lookup_dpi 3300 = None" "lookup_dpi 3200 = Some (0x26, 0x26, 0x09)"
    by (simp_all add: lookup_dpi_def dpi_table_def)
  have "build_dpi_packets ?d ! 0 ! 10 = 0x26 \<and> build_dpi_packets ?d ! 0 ! 11 = 0x26 \<and>
        build_dpi_packets ?d ! 0 ! 13 = 0x09"
    using dpi_exact_match [of 1 ?d, THEN conjunct1] l by (simp add: dpi_slot_def Let_def)
  moreover have "build_dpi_packets ?d ! 0 ! 6 = dpi_template ! 0 ! 6"
    using dpi_exact_match [of 0 ?d, THEN conjunct1] l by (simp add: dpi_slot_def Let_def)
  ultimately show ?thesis by simp
qed

text \<open>
  C8. The polling-rate builder maps the requested rate to one of the four codes
  0x01, 0x02, 0x04, 0x08 by the floor rule, returns one packet of 17 bytes, and
  the byte after the code is (0x55 - code) mod 256, so that the checksum byte is
  0xEF for every rate. For 1000 Hz the complement is 0x54; 125 Hz gives code 0x08.
\<close>

theorem polling_rate_packet:
  "build_polling_rate_packet hz ! 6 =
     (if 1000 \<le> hz then 0x01 else if 500 \<le> hz then 0x02 else if 250 \<le> hz then 0x04 else 0x08) \<and>
   build_polling_rate_packet hz ! 7 = 0x55 - build_polling_rate_packet hz ! 6 \<and>
   unat (build_polling_rate_packet hz ! 7) = (0x55 - unat (build_polling_rate_packet hz ! 6)) mod 256 \<and>
   length (build_polling_rate_packet hz) = 17 \<and>
   build_polling_rate_packet hz ! 16 = 0xEF \<and>
   build_polling_rate_packet 1000 =
     [0x08, 0x07, 0, 0, 0, 0x02, 0x01, 0x54, 0, 0, 0, 0, 0, 0, 0, 0, 0xEF] \<and>
   build_polling_rate_packet 125 =
     [0x08, 0x07, 0, 0, 0, 0x02, 0x08, 0x4D, 0, 0, 0, 0, 0, 0, 0, 0, 0xEF]"
proof -
  have "unat (0x55 - polling_code hz) = (0x55 - unat (polling_code hz)) mod 256"
    using polling_code_cases [of hz] by auto
  then show ?thesis
    by (simp add: build_polling_rate_packet_eq) (simp add: polling_code_def)
qed

text \<open>
  C9. With no changes, \<^const>\<open>build_button_mapping\<close> returns the eight factory-default
  mapping packets byte for byte, whatever the registry holds: recomputing the
  checksum of each template gives the byte the template stores.
\<close>

theorem empty_changes_default:
  "build_button_mapping Map.empty g = Inr (default_button_mapping, Map.empty) \<and>
   length default_button_mapping = 8 \<and>
   map compute_checksum default_button_mapping = map (\<lambda>t. t ! 16) default_button_mapping"
proof -
  have c: "map compute_checksum default_button_mapping = map (\<lambda>t. t ! 16) default_button_mapping"
    by (simp add: default_button_mapping_def compute_checksum_eq)
  have "map (\<lambda>p. p[16 := compute_checksum p]) (map from_raw default_button_mapping)
      = default_button_mapping"
    by (simp add: default_button_mapping_def compute_checksum_eq from_raw_def)
  then have "build_button_mapping Map.empty g = Inr (default_button_mapping, Map.empty)"
    by (simp add: build_button_mapping_def build_empty clear_multikey_actions_def)
  moreover have "length default_button_mapping = 8" by (simp add: default_button_mapping_def)
  ultimately show ?thesis using c by blast
qed




end
